theory Spec2Isabelle
  imports Main
begin

section \<open>The real-time connection manager of the group-chat backend\<close>

text \<open>
  The development embeds \<^verbatim>\<open>groups-backend/websocket_manager.py\<close> (the class
  \<^verbatim>\<open>ConnectionManager\<close>) and the message loop of
  \<^verbatim>\<open>groups-backend/websocket_routes.py\<close>.

  \<^item> A \<^verbatim>\<open>WebSocket\<close> object is known by its identity, a natural number.
  \<^item> A Python \<^verbatim>\<open>set\<close> is a list: \<^verbatim>\<open>add\<close> is \<open>List.insert\<close>, \<^verbatim>\<open>discard\<close> is
    \<open>removeAll\<close>, and a \<^verbatim>\<open>for\<close> loop over the set visits the list in order.
  \<^item> The operations are written as one task runs them from its call to its return.
    What another task may do while a send of the broadcast loop is suspended is
    written separately, in \<open>broadcast_to_group_live\<close>.
  \<^item> A Python \<^verbatim>\<open>dict\<close> held by the manager is a map; a \<^verbatim>\<open>dict\<close> literal that becomes
    an outbound event is an association list of its keys.
  \<^item> The text that \<^verbatim>\<open>json.dumps\<close> puts on the wire is represented by the event itself.
  \<^item> \<^verbatim>\<open>asyncio.Lock\<close> is not reentrant: a task that awaits the lock while the lock is
    held by itself, or by a task that never releases it, never resumes. Every operation
    takes a flag \<open>held\<close> saying whether the lock is taken when the operation starts, and
    its result says whether it returned (\<open>Done\<close>) or is blocked for ever (\<open>Deadlock\<close>),
    together with the state it has produced up to that point.
\<close>

subsection \<open>Values\<close>

type_synonym conn = nat
type_synonym group_id = string
type_synonym user_id = string

datatype json =
    JNull
  | JBool bool
  | JInt int
  | JStr string
  | JList "json list"
  | JObj "(string \<times> json) list"

type_synonym event = "(string \<times> json) list"

text \<open>\<^verbatim>\<open>datetime.utcnow()\<close> and \<^verbatim>\<open>datetime.isoformat()\<close> of the Python library.\<close>

record datetime =
  year :: nat
  month :: nat
  day :: nat
  hour :: nat
  minute :: nat
  second :: nat
  microsecond :: nat

fun digits :: "nat \<Rightarrow> nat \<Rightarrow> string" where
  "digits 0 n = []"
| "digits (Suc k) n = digits k (n div 10) @ [char_of (48 + n mod 10)]"

definition isoformat :: "datetime \<Rightarrow> string" where
  "isoformat d =
     digits 4 (year d) @ ''-'' @ digits 2 (month d) @ ''-'' @ digits 2 (day d) @ ''T'' @
     digits 2 (hour d) @ '':'' @ digits 2 (minute d) @ '':'' @ digits 2 (second d) @
     (if microsecond d = 0 then [] else ''.'' @ digits 6 (microsecond d))"

subsection \<open>The manager's state and its environment\<close>

text \<open>
  The three dictionaries of \<^verbatim>\<open>ConnectionManager.__init__\<close>, and two logs of what the
  manager has done to the outside: \<open>wire\<close> holds every \<^verbatim>\<open>send_text\<close>/\<^verbatim>\<open>send_json\<close>
  attempt in order (the connection, the event, and whether the transport took it), and
  \<open>db_calls\<close> every call made to the persistence layer.
\<close>

datatype db_call =
    SendMessage group_id user_id string json json
  | UpsertRead json user_id
  | UpdateLastRead group_id user_id

record world =
  group_connections :: "group_id \<rightharpoonup> conn list"
  connection_info :: "conn \<rightharpoonup> user_id \<times> group_id"
  typing_users :: "group_id \<rightharpoonup> user_id list"
  wire :: "(conn \<times> event \<times> bool) list"
  db_calls :: "db_call list"

definition init_world :: world where
  "init_world = \<lparr>group_connections = Map.empty, connection_info = Map.empty,
     typing_users = Map.empty, wire = [], db_calls = []\<rparr>"

text \<open>
  What the manager does not decide: whether a send raises, what the clock reads, and what
  the persistence layer answers (\<open>None\<close>: the call raises). The first two may change with
  every send attempt, the third with every call.
\<close>

record env =
  send_fails :: "nat \<Rightarrow> conn \<Rightarrow> bool"
  utcnow :: "nat \<Rightarrow> datetime"
  db_exec :: "db_call list \<Rightarrow> db_call \<Rightarrow> json option"

definition now :: "env \<Rightarrow> world \<Rightarrow> datetime" where
  "now e w = utcnow e (length (wire w))"

datatype outcome = Done world | Deadlock world

fun world_of :: "outcome \<Rightarrow> world" where
  "world_of (Done w) = w"
| "world_of (Deadlock w) = w"

subsection \<open>Outbound events\<close>

definition user_online_event :: "user_id \<Rightarrow> datetime \<Rightarrow> event" where
  "user_online_event user_id t =
     [(''type'', JStr ''user_online''), (''user_id'', JStr user_id),
      (''timestamp'', JStr (isoformat t))]"

definition user_offline_event :: "user_id \<Rightarrow> datetime \<Rightarrow> event" where
  "user_offline_event user_id t =
     [(''type'', JStr ''user_offline''), (''user_id'', JStr user_id),
      (''timestamp'', JStr (isoformat t))]"

subsection \<open>Broadcast and disconnect\<close>

definition send_text :: "env \<Rightarrow> world \<Rightarrow> conn \<Rightarrow> event \<Rightarrow> world \<times> bool" where
  "send_text e w c msg =
     (let ok = \<not> send_fails e (length (wire w)) c
      in (w\<lparr>wire := wire w @ [(c, msg, ok)]\<rparr>, ok))"

text \<open>The first loop of \<^verbatim>\<open>broadcast_to_group\<close>: it collects the connections whose send raised.\<close>

fun send_loop ::
  "env \<Rightarrow> event \<Rightarrow> conn option \<Rightarrow> conn list \<Rightarrow> world \<Rightarrow> conn list \<Rightarrow> world \<times> conn list" where
  "send_loop e msg exclude [] w dead = (w, dead)"
| "send_loop e msg exclude (connection # rest) w dead =
     (if Some connection = exclude then send_loop e msg exclude rest w dead
      else (case send_text e w connection msg of
              (w', ok) \<Rightarrow> send_loop e msg exclude rest w' (if ok then dead else dead @ [connection])))"

definition discard_connection :: "world \<Rightarrow> group_id \<Rightarrow> conn \<Rightarrow> world" where
  "discard_connection w group_id c =
     (case group_connections w group_id of
        None \<Rightarrow> w
      | Some cs \<Rightarrow>
          (if removeAll c cs = []
           then w\<lparr>group_connections := (group_connections w)(group_id := None)\<rparr>
           else w\<lparr>group_connections := (group_connections w)(group_id \<mapsto> removeAll c cs)\<rparr>))"

definition discard_typing :: "world \<Rightarrow> group_id \<Rightarrow> user_id \<Rightarrow> world" where
  "discard_typing w group_id user_id =
     (case typing_users w group_id of
        None \<Rightarrow> w
      | Some us \<Rightarrow> w\<lparr>typing_users := (typing_users w)(group_id \<mapsto> removeAll user_id us)\<rparr>)"

text \<open>
  The two methods call each other:
  \<^verbatim>\<open>
  async def disconnect(self, websocket):
      async with self._lock:
          info = self.connection_info.pop(websocket, None)
          if info:
              user_id, group_id = info
              if group_id in self.group_connections:
                  self.group_connections[group_id].discard(websocket)
                  if not self.group_connections[group_id]:
                      del self.group_connections[group_id]
              if group_id in self.typing_users:
                  self.typing_users[group_id].discard(user_id)
              await self.broadcast_to_group(group_id, {"type": "user_offline", ...})

  async def broadcast_to_group(self, group_id, message, exclude=None):
      if group_id not in self.group_connections:
          return
      dead_connections = []
      for connection in self.group_connections[group_id]:
          if connection == exclude:
              continue
          try:
              await connection.send_text(message_json)
          except Exception as e:
              dead_connections.append(connection)
      for conn in dead_connections:
          await self.disconnect(conn)
  \<close>
  \<^verbatim>\<open>disconnect\<close> broadcasts \<^verbatim>\<open>user_offline\<close> inside its \<^verbatim>\<open>async with self._lock\<close> block, so
  that broadcast runs with the lock held; \<open>cleanup\<close> is the second loop of
  \<^verbatim>\<open>broadcast_to_group\<close>. The recursion ends because a \<^verbatim>\<open>disconnect\<close> that finds the lock
  held goes no further.
\<close>

function disconnect :: "env \<Rightarrow> bool \<Rightarrow> world \<Rightarrow> conn \<Rightarrow> outcome"
  and broadcast_to_group ::
    "env \<Rightarrow> bool \<Rightarrow> world \<Rightarrow> group_id \<Rightarrow> event \<Rightarrow> conn option \<Rightarrow> outcome"
  and cleanup :: "env \<Rightarrow> bool \<Rightarrow> world \<Rightarrow> conn list \<Rightarrow> outcome" where
  "disconnect e held w websocket =
     (if held then Deadlock w
      else (case connection_info w websocket of
              None \<Rightarrow> Done w
            | Some (user_id, group_id) \<Rightarrow>
                broadcast_to_group e True
                  (discard_typing
                     (discard_connection
                        (w\<lparr>connection_info := (connection_info w)(websocket := None)\<rparr>)
                        group_id websocket)
                     group_id user_id)
                  group_id (user_offline_event user_id (now e w)) None))"
| "broadcast_to_group e held w group_id message exclude =
     (case group_connections w group_id of
        None \<Rightarrow> Done w
      | Some cs \<Rightarrow> cleanup e held (fst (send_loop e message exclude cs w []))
                    (snd (send_loop e message exclude cs w [])))"
| "cleanup e held w [] = Done w"
| "cleanup e held w (c # dead_connections) =
     (case disconnect e held w c of
        Done w' \<Rightarrow> cleanup e held w' dead_connections
      | Deadlock w' \<Rightarrow> Deadlock w')"
  by pat_completeness auto
termination
  by (relation "measures
        [\<lambda>x. case x of Inl (e, held, w, c) \<Rightarrow> (if held then 0 else 1)
                     | Inr (Inl (e, held, w, g, m, ex)) \<Rightarrow> (if held then 0 else 1)
                     | Inr (Inr (e, held, w, cs)) \<Rightarrow> (if held then 0 else 1),
         \<lambda>x. case x of Inl _ \<Rightarrow> 0 | Inr (Inl _) \<Rightarrow> 2 | Inr (Inr _) \<Rightarrow> 1,
         \<lambda>x. case x of Inl _ \<Rightarrow> 0 | Inr (Inl _) \<Rightarrow> 0
                     | Inr (Inr (e, held, w, cs)) \<Rightarrow> length cs]") auto

declare disconnect.simps [simp del] broadcast_to_group.simps [simp del]


subsection \<open>Registration, typing indicators and the broadcast helpers\<close>

definition connect :: "env \<Rightarrow> bool \<Rightarrow> world \<Rightarrow> conn \<Rightarrow> group_id \<Rightarrow> user_id \<Rightarrow> outcome" where
  "connect e held w websocket group_id user_id =
     (if held then Deadlock w
      else
        (let cs = (case group_connections w group_id of None \<Rightarrow> [] | Some cs \<Rightarrow> cs);
             w' = w\<lparr>group_connections := (group_connections w)(group_id \<mapsto> List.insert websocket cs),
                    connection_info := (connection_info w)(websocket \<mapsto> (user_id, group_id))\<rparr>
         in broadcast_to_group e False w' group_id (user_online_event user_id (now e w'))
              (Some websocket)))"

definition new_message_event :: "json \<Rightarrow> datetime \<Rightarrow> event" where
  "new_message_event message_data t =
     [(''type'', JStr ''new_message''), (''message'', message_data),
      (''timestamp'', JStr (isoformat t))]"

definition message_edited_event :: "string \<Rightarrow> string \<Rightarrow> datetime \<Rightarrow> event" where
  "message_edited_event message_id content t =
     [(''type'', JStr ''message_edited''), (''message_id'', JStr message_id),
      (''content'', JStr content), (''edited_at'', JStr (isoformat t))]"

definition message_deleted_event :: "string \<Rightarrow> datetime \<Rightarrow> event" where
  "message_deleted_event message_id t =
     [(''type'', JStr ''message_deleted''), (''message_id'', JStr message_id),
      (''timestamp'', JStr (isoformat t))]"

definition typing_start_event :: "user_id \<Rightarrow> string \<Rightarrow> datetime \<Rightarrow> event" where
  "typing_start_event user_id user_name t =
     [(''type'', JStr ''typing_start''), (''user_id'', JStr user_id),
      (''user_name'', JStr user_name), (''timestamp'', JStr (isoformat t))]"

definition typing_stop_event :: "user_id \<Rightarrow> datetime \<Rightarrow> event" where
  "typing_stop_event user_id t =
     [(''type'', JStr ''typing_stop''), (''user_id'', JStr user_id),
      (''timestamp'', JStr (isoformat t))]"

definition member_joined_event :: "json \<Rightarrow> datetime \<Rightarrow> event" where
  "member_joined_event user_data t =
     [(''type'', JStr ''member_joined''), (''user'', user_data),
      (''timestamp'', JStr (isoformat t))]"

definition member_left_event :: "user_id \<Rightarrow> datetime \<Rightarrow> event" where
  "member_left_event user_id t =
     [(''type'', JStr ''member_left''), (''user_id'', JStr user_id),
      (''timestamp'', JStr (isoformat t))]"

definition reaction_update_event ::
  "string \<Rightarrow> string \<Rightarrow> user_id \<Rightarrow> string \<Rightarrow> datetime \<Rightarrow> event" where
  "reaction_update_event message_id emoji user_id action t =
     [(''type'', JStr ''reaction_update''), (''message_id'', JStr message_id),
      (''emoji'', JStr emoji), (''user_id'', JStr user_id), (''action'', JStr action),
      (''timestamp'', JStr (isoformat t))]"

definition pin_event :: "string \<Rightarrow> bool \<Rightarrow> user_id \<Rightarrow> datetime \<Rightarrow> event" where
  "pin_event message_id is_pinned user_id t =
     [(''type'', JStr (if is_pinned then ''message_pinned'' else ''message_unpinned'')),
      (''message_id'', JStr message_id), (''pinned_by'', JStr user_id),
      (''timestamp'', JStr (isoformat t))]"

definition poll_event :: "json \<Rightarrow> string \<Rightarrow> datetime \<Rightarrow> event" where
  "poll_event poll_data action t =
     [(''type'', JStr (''poll_'' @ action)), (''poll'', poll_data),
      (''timestamp'', JStr (isoformat t))]"

definition poll_vote_event :: "string \<Rightarrow> user_id \<Rightarrow> datetime \<Rightarrow> event" where
  "poll_vote_event poll_id user_id t =
     [(''type'', JStr ''poll_vote''), (''poll_id'', JStr poll_id), (''user_id'', JStr user_id),
      (''timestamp'', JStr (isoformat t))]"

definition message_read_event :: "string \<Rightarrow> user_id \<Rightarrow> datetime \<Rightarrow> event" where
  "message_read_event message_id user_id t =
     [(''type'', JStr ''message_read''), (''message_id'', JStr message_id),
      (''user_id'', JStr user_id), (''timestamp'', JStr (isoformat t))]"

definition mention_event :: "string \<Rightarrow> datetime \<Rightarrow> event" where
  "mention_event message_id t =
     [(''type'', JStr ''mention''), (''message_id'', JStr message_id),
      (''timestamp'', JStr (isoformat t))]"

definition pong_event :: event where
  "pong_event = [(''type'', JStr ''pong'')]"

definition broadcast_message :: "env \<Rightarrow> bool \<Rightarrow> world \<Rightarrow> group_id \<Rightarrow> json \<Rightarrow> outcome" where
  "broadcast_message e held w group_id message_data =
     broadcast_to_group e held w group_id (new_message_event message_data (now e w)) None"

definition broadcast_message_edit ::
  "env \<Rightarrow> bool \<Rightarrow> world \<Rightarrow> group_id \<Rightarrow> string \<Rightarrow> string \<Rightarrow> outcome" where
  "broadcast_message_edit e held w group_id message_id content =
     broadcast_to_group e held w group_id (message_edited_event message_id content (now e w)) None"

definition broadcast_message_delete ::
  "env \<Rightarrow> bool \<Rightarrow> world \<Rightarrow> group_id \<Rightarrow> string \<Rightarrow> outcome" where
  "broadcast_message_delete e held w group_id message_id =
     broadcast_to_group e held w group_id (message_deleted_event message_id (now e w)) None"

definition set_typing ::
  "env \<Rightarrow> bool \<Rightarrow> world \<Rightarrow> group_id \<Rightarrow> user_id \<Rightarrow> string \<Rightarrow> outcome" where
  "set_typing e held w group_id user_id user_name =
     (if held then Deadlock w
      else
        (let us = (case typing_users w group_id of None \<Rightarrow> [] | Some us \<Rightarrow> us);
             w' = w\<lparr>typing_users := (typing_users w)(group_id \<mapsto> List.insert user_id us)\<rparr>
         in broadcast_to_group e False w' group_id
              (typing_start_event user_id user_name (now e w')) None))"

definition clear_typing :: "env \<Rightarrow> bool \<Rightarrow> world \<Rightarrow> group_id \<Rightarrow> user_id \<Rightarrow> outcome" where
  "clear_typing e held w group_id user_id =
     (if held then Deadlock w
      else
        (let w' = discard_typing w group_id user_id
         in broadcast_to_group e False w' group_id (typing_stop_event user_id (now e w')) None))"

definition broadcast_member_joined :: "env \<Rightarrow> bool \<Rightarrow> world \<Rightarrow> group_id \<Rightarrow> json \<Rightarrow> outcome" where
  "broadcast_member_joined e held w group_id user_data =
     broadcast_to_group e held w group_id (member_joined_event user_data (now e w)) None"

definition broadcast_member_left ::
  "env \<Rightarrow> bool \<Rightarrow> world \<Rightarrow> group_id \<Rightarrow> user_id \<Rightarrow> outcome" where
  "broadcast_member_left e held w group_id user_id =
     broadcast_to_group e held w group_id (member_left_event user_id (now e w)) None"

definition broadcast_reaction ::
  "env \<Rightarrow> bool \<Rightarrow> world \<Rightarrow> group_id \<Rightarrow> string \<Rightarrow> string \<Rightarrow> user_id \<Rightarrow> string \<Rightarrow> outcome" where
  "broadcast_reaction e held w group_id message_id emoji user_id action =
     broadcast_to_group e held w group_id
       (reaction_update_event message_id emoji user_id action (now e w)) None"

definition broadcast_pin ::
  "env \<Rightarrow> bool \<Rightarrow> world \<Rightarrow> group_id \<Rightarrow> string \<Rightarrow> bool \<Rightarrow> user_id \<Rightarrow> outcome" where
  "broadcast_pin e held w group_id message_id is_pinned user_id =
     broadcast_to_group e held w group_id (pin_event message_id is_pinned user_id (now e w)) None"

definition broadcast_poll ::
  "env \<Rightarrow> bool \<Rightarrow> world \<Rightarrow> group_id \<Rightarrow> json \<Rightarrow> string \<Rightarrow> outcome" where
  "broadcast_poll e held w group_id poll_data action =
     broadcast_to_group e held w group_id (poll_event poll_data action (now e w)) None"

definition broadcast_poll_vote ::
  "env \<Rightarrow> bool \<Rightarrow> world \<Rightarrow> group_id \<Rightarrow> string \<Rightarrow> user_id \<Rightarrow> outcome" where
  "broadcast_poll_vote e held w group_id poll_id user_id =
     broadcast_to_group e held w group_id (poll_vote_event poll_id user_id (now e w)) None"

definition broadcast_read ::
  "env \<Rightarrow> bool \<Rightarrow> world \<Rightarrow> group_id \<Rightarrow> string \<Rightarrow> user_id \<Rightarrow> outcome" where
  "broadcast_read e held w group_id message_id user_id =
     broadcast_to_group e held w group_id (message_read_event message_id user_id (now e w)) None"

text \<open>\<^verbatim>\<open>send_to_user\<close>: a send that raises is logged and nothing else happens.\<close>

fun send_to_user_loop :: "env \<Rightarrow> user_id \<Rightarrow> event \<Rightarrow> conn list \<Rightarrow> world \<Rightarrow> world" where
  "send_to_user_loop e user_id msg [] w = w"
| "send_to_user_loop e user_id msg (connection # rest) w =
     (case connection_info w connection of
        None \<Rightarrow> send_to_user_loop e user_id msg rest w
      | Some info \<Rightarrow>
          (if fst info = user_id
           then send_to_user_loop e user_id msg rest (fst (send_text e w connection msg))
           else send_to_user_loop e user_id msg rest w))"

definition send_to_user :: "env \<Rightarrow> world \<Rightarrow> group_id \<Rightarrow> user_id \<Rightarrow> event \<Rightarrow> world" where
  "send_to_user e w group_id user_id message =
     (case group_connections w group_id of
        None \<Rightarrow> w
      | Some cs \<Rightarrow> send_to_user_loop e user_id message cs w)"

definition broadcast_mention :: "env \<Rightarrow> world \<Rightarrow> group_id \<Rightarrow> string \<Rightarrow> user_id \<Rightarrow> world" where
  "broadcast_mention e w group_id message_id mentioned_user_id =
     send_to_user e w group_id mentioned_user_id (mention_event message_id (now e w))"

definition get_online_users :: "world \<Rightarrow> group_id \<Rightarrow> user_id list" where
  "get_online_users w group_id =
     (case group_connections w group_id of
        None \<Rightarrow> []
      | Some cs \<Rightarrow>
          map (\<lambda>conn. fst (the (connection_info w conn)))
            (filter (\<lambda>conn. connection_info w conn \<noteq> None) cs))"

definition get_typing_users :: "world \<Rightarrow> group_id \<Rightarrow> user_id list" where
  "get_typing_users w group_id =
     (case typing_users w group_id of None \<Rightarrow> [] | Some us \<Rightarrow> us)"


subsection \<open>The broadcast loop over the live set\<close>

text \<open>
  \<^verbatim>\<open>broadcast_to_group\<close> iterates \<^verbatim>\<open>self.group_connections[group_id]\<close> itself, not a copy, and
  every \<^verbatim>\<open>await connection.send_text(...)\<close> of the loop may give way to other tasks. The
  definition above is the loop as a single task runs it. Here the loop is written with
  what another session may do to the set in the meantime: \<open>joins n\<close> is a registration
  (the locked part of \<^verbatim>\<open>connect\<close>, which awaits nothing and finds the lock free, since the
  loop does not hold it) that completes while send attempt \<open>n\<close> is suspended. A Python set
  iterator compares the size of its set with the size it started from at every step, the
  one that ends the loop included, and raises \<^verbatim>\<open>RuntimeError: Set changed size during
  iteration\<close> when they differ. The \<^verbatim>\<open>try\<close> of the loop covers the send only, so the error
  leaves \<^verbatim>\<open>broadcast_to_group\<close>: the rest of the room is not sent to and the failed
  connections are not cleaned up.
\<close>

type_synonym joins = "nat \<Rightarrow> (conn \<times> group_id \<times> user_id) option"

definition register :: "world \<Rightarrow> conn \<Rightarrow> group_id \<Rightarrow> user_id \<Rightarrow> world" where
  "register w websocket group_id user_id =
     w\<lparr>group_connections := (group_connections w)(group_id \<mapsto> List.insert websocket
            (case group_connections w group_id of None \<Rightarrow> [] | Some cs \<Rightarrow> cs)),
       connection_info := (connection_info w)(websocket \<mapsto> (user_id, group_id))\<rparr>"

definition room_size :: "world \<Rightarrow> group_id \<Rightarrow> nat" where
  "room_size w group_id =
     (case group_connections w group_id of None \<Rightarrow> 0 | Some cs \<Rightarrow> length cs)"

datatype live_loop = Exhausted world "conn list" | Set_changed_size world

fun send_loop_live ::
  "env \<Rightarrow> joins \<Rightarrow> group_id \<Rightarrow> nat \<Rightarrow> event \<Rightarrow> conn option \<Rightarrow> conn list \<Rightarrow> world \<Rightarrow> conn list
     \<Rightarrow> live_loop" where
  "send_loop_live e joins g size0 msg exclude [] w dead =
     (if room_size w g \<noteq> size0 then Set_changed_size w else Exhausted w dead)"
| "send_loop_live e joins g size0 msg exclude (connection # rest) w dead =
     (if room_size w g \<noteq> size0 then Set_changed_size w
      else if Some connection = exclude then send_loop_live e joins g size0 msg exclude rest w dead
      else (case send_text e w connection msg of
              (w', ok) \<Rightarrow>
                send_loop_live e joins g size0 msg exclude rest
                  (case joins (length (wire w)) of
                     None \<Rightarrow> w'
                   | Some (c', g', u') \<Rightarrow> register w' c' g' u')
                  (if ok then dead else dead @ [connection])))"

datatype live_outcome = Returned outcome | RuntimeError world

fun live_world :: "live_outcome \<Rightarrow> world" where
  "live_world (Returned r) = world_of r"
| "live_world (RuntimeError w) = w"

definition broadcast_to_group_live ::
  "env \<Rightarrow> joins \<Rightarrow> world \<Rightarrow> group_id \<Rightarrow> event \<Rightarrow> conn option \<Rightarrow> live_outcome" where
  "broadcast_to_group_live e joins w group_id message exclude =
     (case group_connections w group_id of
        None \<Rightarrow> Returned (Done w)
      | Some cs \<Rightarrow>
          (case send_loop_live e joins group_id (length cs) message exclude cs w [] of
             Set_changed_size w' \<Rightarrow> RuntimeError w'
           | Exhausted w' dead_connections \<Rightarrow> Returned (cleanup e False w' dead_connections)))"

subsection \<open>The message loop of the room endpoint\<close>

text \<open>
  One round of the \<^verbatim>\<open>while True\<close> loop of \<^verbatim>\<open>group_chat_websocket\<close>, after
  \<^verbatim>\<open>receive_text\<close> has returned. The frame is given as the result of \<^verbatim>\<open>json.loads\<close>
  (\<open>None\<close>: \<^verbatim>\<open>JSONDecodeError\<close>). Both \<^verbatim>\<open>except\<close> clauses only log, so every exception
  raised in the body ends the round and the loop goes on: the round returns \<open>Done\<close>.
  Characters stand for the code points below 256; JSON numbers are integers.
\<close>

fun truthy :: "json \<Rightarrow> bool" where
  "truthy JNull = False"
| "truthy (JBool b) = b"
| "truthy (JInt n) = (n \<noteq> 0)"
| "truthy (JStr s) = (s \<noteq> [])"
| "truthy (JList xs) = (xs \<noteq> [])"
| "truthy (JObj kvs) = (kvs \<noteq> [])"

definition is_space :: "char \<Rightarrow> bool" where
  "is_space c =
     (let n = (of_char c :: nat)
      in (9 \<le> n \<and> n \<le> 13) \<or> (28 \<le> n \<and> n \<le> 32) \<or> n = 133 \<or> n = 160)"

definition strip :: "string \<Rightarrow> string" where
  "strip s = rev (dropWhile is_space (rev (dropWhile is_space s)))"

definition py_get :: "(string \<times> json) list \<Rightarrow> string \<Rightarrow> json" where
  "py_get kvs k = (case map_of kvs k of None \<Rightarrow> JNull | Some v \<Rightarrow> v)"

record session =
  websocket :: conn
  group_id :: group_id
  user_id :: user_id
  user_name :: string

definition handle_message ::
  "env \<Rightarrow> bool \<Rightarrow> world \<Rightarrow> session \<Rightarrow> (string \<times> json) list \<Rightarrow> outcome" where
  "handle_message e held w s message =
     (case (case map_of message ''data'' of None \<Rightarrow> JObj message | Some d \<Rightarrow> d) of
        JObj msg_data \<Rightarrow>
          (case (if truthy (py_get msg_data ''content'') then py_get msg_data ''content''
                 else JStr []) of
             JStr raw \<Rightarrow>
               (if strip raw \<noteq> [] then
                  (let call = SendMessage (group_id s) (user_id s) (strip raw)
                                (case map_of msg_data ''message_type'' of
                                   None \<Rightarrow> JStr ''text'' | Some t \<Rightarrow> t)
                                (py_get msg_data ''reply_to_id'');
                       w1 = w\<lparr>db_calls := db_calls w @ [call]\<rparr>
                   in (case db_exec e (db_calls w) call of
                         None \<Rightarrow> Done w1
                       | Some new_msg \<Rightarrow>
                           (if truthy new_msg then
                              (case broadcast_message e held w1 (group_id s) new_msg of
                                 Done w2 \<Rightarrow> clear_typing e held w2 (group_id s) (user_id s)
                               | Deadlock w2 \<Rightarrow> Deadlock w2)
                            else Done w1)))
                else Done w)
           | _ \<Rightarrow> Done w)
      | _ \<Rightarrow> Done w)"

definition handle_read :: "env \<Rightarrow> world \<Rightarrow> session \<Rightarrow> (string \<times> json) list \<Rightarrow> world" where
  "handle_read e w s message =
     (let message_id = py_get message ''message_id''
      in if truthy message_id then
           (let w1 = w\<lparr>db_calls := db_calls w @ [UpsertRead message_id (user_id s)]\<rparr>
            in (case db_exec e (db_calls w) (UpsertRead message_id (user_id s)) of
                  None \<Rightarrow> w1
                | Some r \<Rightarrow>
                    w1\<lparr>db_calls := db_calls w1 @ [UpdateLastRead (group_id s) (user_id s)]\<rparr>))
         else w)"

definition handle_frame ::
  "env \<Rightarrow> bool \<Rightarrow> world \<Rightarrow> session \<Rightarrow> json option \<Rightarrow> outcome" where
  "handle_frame e held w s data =
     (case data of
        None \<Rightarrow> Done w
      | Some (JObj message) \<Rightarrow>
          (let msg_type = py_get message ''type''
           in if msg_type = JStr ''message'' then handle_message e held w s message
              else if msg_type = JStr ''typing''
                then set_typing e held w (group_id s) (user_id s) (user_name s)
              else if msg_type = JStr ''stop_typing''
                then clear_typing e held w (group_id s) (user_id s)
              else if msg_type = JStr ''read'' then Done (handle_read e w s message)
              else if msg_type = JStr ''ping''
                then Done (fst (send_text e w (websocket s) pong_event))
              else Done w)
      | Some other \<Rightarrow> Done w)"

text \<open>
  The loop itself, for the frames that \<^verbatim>\<open>receive_text\<close> returns before it raises: when
  it raises, the \<^verbatim>\<open>finally\<close> clause disconnects the session's connection.
\<close>

fun message_loop :: "env \<Rightarrow> bool \<Rightarrow> world \<Rightarrow> session \<Rightarrow> json option list \<Rightarrow> outcome" where
  "message_loop e held w s [] = disconnect e held w (websocket s)"
| "message_loop e held w s (data # frames) =
     (case handle_frame e held w s data of
        Done w' \<Rightarrow> message_loop e held w' s frames
      | Deadlock w' \<Rightarrow> Deadlock w')"

subsection \<open>What a broadcast loop puts on the wire\<close>

text \<open>
  The attempts of the first loop of \<^verbatim>\<open>broadcast_to_group\<close>, written out as a list:
  \<open>n\<close> is the number of attempts made before the loop starts.
\<close>

fun loop_entries ::
  "env \<Rightarrow> event \<Rightarrow> conn option \<Rightarrow> conn list \<Rightarrow> nat \<Rightarrow> (conn \<times> event \<times> bool) list" where
  "loop_entries e msg exclude [] n = []"
| "loop_entries e msg exclude (c # rest) n =
     (if Some c = exclude then loop_entries e msg exclude rest n
      else (c, msg, \<not> send_fails e n c) # loop_entries e msg exclude rest (Suc n))"

definition failed :: "(conn \<times> event \<times> bool) list \<Rightarrow> conn list" where
  "failed entries = map fst (filter (\<lambda>x. \<not> snd (snd x)) entries)"

subsection \<open>Reachable states\<close>

text \<open>
  The states the manager can be in between two operations. A session registers its own
  connection once, when it becomes active, so \<open>connect\<close> is given a connection that has
  no record at that moment; every other operation may come at any time, with any
  transport failing, and also while the lock is held by a task that is blocked for ever.
\<close>

inductive reachable :: "world \<Rightarrow> bool" where
  r_init: "reachable init_world"
| r_connect: "reachable w \<Longrightarrow> connection_info w c = None \<Longrightarrow>
     reachable (world_of (connect e held w c g u))"
| r_disconnect: "reachable w \<Longrightarrow> reachable (world_of (disconnect e held w c))"
| r_broadcast: "reachable w \<Longrightarrow> reachable (world_of (broadcast_to_group e held w g msg ex))"
| r_set_typing: "reachable w \<Longrightarrow> reachable (world_of (set_typing e held w g u n))"
| r_clear_typing: "reachable w \<Longrightarrow> reachable (world_of (clear_typing e held w g u))"
| r_send_to_user: "reachable w \<Longrightarrow> reachable (send_to_user e w g u msg)"
| r_frame: "reachable w \<Longrightarrow> reachable (world_of (handle_frame e held w s data))"

text \<open>
  The registry invariant: every room entry is a non-empty set of distinct connections,
  each of which has a record that names this room.
\<close>

definition registry_ok :: "world \<Rightarrow> bool" where
  "registry_ok w \<longleftrightarrow>
     (\<forall>g cs. group_connections w g = Some cs \<longrightarrow>
        cs \<noteq> [] \<and> distinct cs \<and> (\<forall>c \<in> set cs. \<exists>u. connection_info w c = Some (u, g)))"


subsection \<open>Reading the wire\<close>

text \<open>
  What was sent between two states, the kind of an event, and the shapes of events that
  the properties speak about: a \<^verbatim>\<open>user_offline\<close> event, an event with a textual \<^verbatim>\<open>type\<close>
  and a \<^verbatim>\<open>timestamp\<close> that is the \<^verbatim>\<open>isoformat()\<close> text of a clock reading, and the
  \<^verbatim>\<open>message_edited\<close> event, which has \<^verbatim>\<open>edited_at\<close> in its place.
\<close>

definition sent_since :: "world \<Rightarrow> world \<Rightarrow> (conn \<times> event \<times> bool) list" where
  "sent_since w w' = drop (length (wire w)) (wire w')"

definition event_type :: "event \<Rightarrow> json" where
  "event_type ev = py_get ev ''type''"

definition offline_only :: "(conn \<times> event \<times> bool) list \<Rightarrow> bool" where
  "offline_only entries = list_all (\<lambda>x. event_type (fst (snd x)) = JStr ''user_offline'') entries"

definition str_field :: "event \<Rightarrow> string \<Rightarrow> bool" where
  "str_field ev k = (case map_of ev k of Some (JStr s) \<Rightarrow> True | _ \<Rightarrow> False)"

definition clock_field :: "env \<Rightarrow> event \<Rightarrow> string \<Rightarrow> bool" where
  "clock_field e ev k \<longleftrightarrow> (\<exists>n. map_of ev k = Some (JStr (isoformat (utcnow e n))))"

definition stamped_event :: "env \<Rightarrow> event \<Rightarrow> bool" where
  "stamped_event e ev \<longleftrightarrow> str_field ev ''type'' \<and> clock_field e ev ''timestamp''"

definition edited_event :: "env \<Rightarrow> event \<Rightarrow> bool" where
  "edited_event e ev \<longleftrightarrow>
     map_of ev ''type'' = Some (JStr ''message_edited'') \<and> clock_field e ev ''edited_at''
     \<and> map_of ev ''timestamp'' = None"

definition all_sent :: "(event \<Rightarrow> bool) \<Rightarrow> world \<Rightarrow> world \<Rightarrow> bool" where
  "all_sent P w w' = list_all (\<lambda>x. P (fst (snd x))) (sent_since w w')"

subsection \<open>A concrete environment and concrete rooms\<close>

text \<open>
  An environment in which exactly the connections of \<open>down\<close> have a broken transport,
  the clock stands still and the persistence layer stores every message.
\<close>

definition noon :: datetime where
  "noon = \<lparr>year = 2024, month = 5, day = 17, hour = 12, minute = 0, second = 0,
     microsecond = 0\<rparr>"

definition stored :: json where
  "stored = JObj [(''id'', JStr ''m1''), (''content'', JStr ''hello'')]"

definition env_with :: "conn list \<Rightarrow> env" where
  "env_with down = \<lparr>send_fails = (\<lambda>n c. c \<in> set down), utcnow = (\<lambda>n. noon),
     db_exec = (\<lambda>history call. Some stored)\<rparr>"

text \<open>Room R1 after alice, bob and carol have connected on connections 1, 2 and 3.\<close>

definition room1 :: world where
  "room1 = world_of (connect (env_with []) False init_world 1 ''R1'' ''alice'')"

definition room2 :: world where
  "room2 = world_of (connect (env_with []) False room1 2 ''R1'' ''bob'')"

definition room3 :: world where
  "room3 = world_of (connect (env_with []) False room2 3 ''R1'' ''carol'')"

text \<open>Alice connected to R1 from two devices.\<close>

definition two_devices :: world where
  "two_devices = world_of (connect (env_with []) False room1 2 ''R1'' ''alice'')"

text \<open>A broadcast to R1 while the transports of bob and carol are broken.\<close>

definition stuck_broadcast :: outcome where
  "stuck_broadcast =
     broadcast_to_group (env_with [2, 3]) False room3 ''R1'' (new_message_event stored noon) None"

text \<open>Alice starts and stops typing: in R2, where nobody is connected, and in R1.\<close>

definition lone_typing :: world where
  "lone_typing =
     world_of (clear_typing (env_with []) False
       (world_of (set_typing (env_with []) False init_world ''R2'' ''alice'' ''Alice''))
       ''R2'' ''alice'')"



text \<open>
  Alice's session in R1, and the message she sends while she is typing and the
  transports of bob and carol are broken.
\<close>

definition alice_session :: session where
  "alice_session = \<lparr>websocket = 1, group_id = ''R1'', user_id = ''alice'', user_name = ''Alice''\<rparr>"

definition typing_room3 :: world where
  "typing_room3 = world_of (set_typing (env_with []) False room3 ''R1'' ''alice'' ''Alice'')"

definition hello_frame :: "json option" where
  "hello_frame = Some (JObj [(''type'', JStr ''message''), (''content'', JStr ''  hello '')])"

definition stuck_message :: outcome where
  "stuck_message = handle_frame (env_with [2, 3]) False typing_room3 alice_session hello_frame"

text \<open>
  A broadcast to R1 that excludes carol's connection, during whose first send dave's
  session registers connection 4 in R1 (the first send attempt of the broadcast is the
  fourth on the wire).
\<close>

definition dave_joins :: joins where
  "dave_joins n = (if n = 3 then Some (4, ''R1'', ''dave'') else None)"

definition interrupted_broadcast :: live_outcome where
  "interrupted_broadcast =
     broadcast_to_group_live (env_with []) dave_joins room3 ''R1''
       (new_message_event stored noon) (Some 3)"

section \<open>Properties\<close>

subsection \<open>The lock, the broadcast loop and the registry invariant\<close>

lemma disconnect_held: "disconnect e True w c = Deadlock w"
  by (simp add: disconnect.simps)

lemma cleanup_held: "cleanup e True w dead = (if dead = [] then Done w else Deadlock w)"
  by (cases dead) (simp_all add: disconnect_held)

lemma send_loop_eq:
  "send_loop e m ex cs w d =
     (w\<lparr>wire := wire w @ loop_entries e m ex cs (length (wire w))\<rparr>,
      d @ failed (loop_entries e m ex cs (length (wire w))))"
  by (induction cs arbitrary: w d) (simp_all add: send_text_def failed_def)

lemma broadcast_eq:
  "broadcast_to_group e held w g m ex =
     (case group_connections w g of
        None \<Rightarrow> Done w
      | Some cs \<Rightarrow>
          cleanup e held (w\<lparr>wire := wire w @ loop_entries e m ex cs (length (wire w))\<rparr>)
            (failed (loop_entries e m ex cs (length (wire w)))))"
  by (simp add: broadcast_to_group.simps send_loop_eq split: option.splits)

lemma preserved:
  assumes wire: "\<And>w x. P w \<Longrightarrow> P (w\<lparr>wire := x\<rparr>)"
    and step: "\<And>w c u g. P w \<Longrightarrow> connection_info w c = Some (u, g) \<Longrightarrow>
       P (discard_typing (discard_connection (w\<lparr>connection_info := (connection_info w)(c := None)\<rparr>) g c) g u)"
  shows "P w \<longrightarrow> P (world_of (disconnect e held w c))"
    and "P w \<longrightarrow> P (world_of (broadcast_to_group e held w g m ex))"
    and "P w \<longrightarrow> P (world_of (cleanup e held w dead))"
proof (induction e held w c and e held w g m ex and e held w dead
    rule: disconnect_broadcast_to_group_cleanup.induct)
  case (1 e held w websocket)
  then show ?case
    by (auto simp: disconnect.simps step split: option.splits)
next
  case (2 e held w group_id message exclude)
  then show ?case
    by (auto simp: broadcast_to_group.simps send_loop_eq wire split: option.splits)
next
  case (3 e held w)
  then show ?case by simp
next
  case (4 e held w c dead_connections)
  then show ?case
    by (cases "disconnect e held w c") auto
qed

lemma registry_ok_wire: "registry_ok (w\<lparr>wire := x\<rparr>) = registry_ok w"
  by (simp add: registry_ok_def)


lemma discard_group_connections:
  "group_connections (discard_typing (discard_connection w g c) g u) g' =
     (if g' = g
      then (case group_connections w g of
              None \<Rightarrow> None
            | Some cs \<Rightarrow> if removeAll c cs = [] then None else Some (removeAll c cs))
      else group_connections w g')"
  by (simp add: discard_typing_def discard_connection_def split: option.splits)

lemma discard_connection_info:
  "connection_info (discard_typing (discard_connection w g c) g u) = connection_info w"
  by (simp add: discard_typing_def discard_connection_def split: option.splits)

lemma discard_typing_users:
  "typing_users (discard_typing (discard_connection w g c) g u) =
     (case typing_users w g of
        None \<Rightarrow> typing_users w
      | Some us \<Rightarrow> (typing_users w)(g \<mapsto> removeAll u us))"
  by (simp add: discard_typing_def discard_connection_def split: option.splits)

lemma discard_wire:
  "wire (discard_typing (discard_connection w g c) g u) = wire w"
  by (simp add: discard_typing_def discard_connection_def split: option.splits)

lemma discard_db_calls:
  "db_calls (discard_typing (discard_connection w g c) g u) = db_calls w"
  by (simp add: discard_typing_def discard_connection_def split: option.splits)

lemma registry_ok_step:
  assumes ok: "registry_ok w" and info: "connection_info w c = Some (u, g)"
  shows "registry_ok (discard_typing (discard_connection
           (w\<lparr>connection_info := (connection_info w)(c := None)\<rparr>) g c) g u)"
  unfolding registry_ok_def
proof (intro allI impI)
  fix g' cs'
  let ?w = "discard_typing (discard_connection
           (w\<lparr>connection_info := (connection_info w)(c := None)\<rparr>) g c) g u"
  assume entry: "group_connections ?w g' = Some cs'"
  have ci: "connection_info ?w = (connection_info w)(c := None)"
    by (simp add: discard_connection_info)
  show "cs' \<noteq> [] \<and> distinct cs' \<and> (\<forall>x\<in>set cs'. \<exists>v. connection_info ?w x = Some (v, g'))"
  proof (cases "g' = g")
    case True
    from entry True obtain cs where cs: "group_connections w g = Some cs"
      and cs': "cs' = removeAll c cs" and ne: "removeAll c cs \<noteq> []"
      by (auto simp: discard_group_connections split: option.splits if_splits)
    from ok cs have "distinct cs" "\<forall>x\<in>set cs. \<exists>v. connection_info w x = Some (v, g)"
      by (auto simp: registry_ok_def)
    then show ?thesis using cs' ne True ci by (auto simp: distinct_removeAll)
  next
    case False
    with entry have cs: "group_connections w g' = Some cs'"
      by (simp add: discard_group_connections)
    from ok cs have *: "cs' \<noteq> []" "distinct cs'"
      "\<forall>x\<in>set cs'. \<exists>v. connection_info w x = Some (v, g')"
      by (auto simp: registry_ok_def)
    have "c \<notin> set cs'" using *(3) info False by auto
    then show ?thesis using * ci by auto
  qed
qed

lemma registry_ok_broadcast:
  "registry_ok w \<Longrightarrow> registry_ok (world_of (broadcast_to_group e held w g m ex))"
  using preserved(2)[of registry_ok] registry_ok_wire registry_ok_step by blast

lemma registry_ok_disconnect:
  "registry_ok w \<Longrightarrow> registry_ok (world_of (disconnect e held w c))"
  using preserved(1)[of registry_ok] registry_ok_wire registry_ok_step by blast

lemma registry_ok_connect:
  assumes "registry_ok w" "connection_info w c = None"
  shows "registry_ok (world_of (connect e held w c g u))"
proof (cases held)
  case True
  then show ?thesis using assms by (simp add: connect_def)
next
  case False
  define cs0 where "cs0 = (case group_connections w g of None \<Rightarrow> [] | Some cs \<Rightarrow> cs)"
  define w' where "w' = w\<lparr>group_connections := (group_connections w)(g \<mapsto> List.insert c cs0),
                    connection_info := (connection_info w)(c \<mapsto> (u, g))\<rparr>"
  have cs0: "distinct cs0 \<and> (\<forall>x\<in>set cs0. \<exists>v. connection_info w x = Some (v, g))"
  proof (cases "group_connections w g")
    case None
    then show ?thesis by (simp add: cs0_def)
  next
    case (Some cs)
    with assms(1) show ?thesis unfolding registry_ok_def cs0_def by fastforce
  qed
  have "registry_ok w'"
    unfolding registry_ok_def
  proof (intro allI impI)
    fix g' cs'
    assume entry: "group_connections w' g' = Some cs'"
    show "cs' \<noteq> [] \<and> distinct cs' \<and> (\<forall>x\<in>set cs'. \<exists>v. connection_info w' x = Some (v, g'))"
    proof (cases "g' = g")
      case True
      with entry have cs': "cs' = List.insert c cs0" by (simp add: w'_def)
      have "c \<in> set cs'" by (simp add: cs')
      then have "cs' \<noteq> []" by auto
      moreover have "distinct cs'" using cs0 by (simp add: cs')
      moreover have "\<forall>x\<in>set cs'. \<exists>v. connection_info w' x = Some (v, g')"
        using cs0 True by (auto simp: cs' w'_def)
      ultimately show ?thesis by blast
    next
      case False
      with entry have "group_connections w g' = Some cs'" by (simp add: w'_def)
      with assms(1) have *: "cs' \<noteq> []" "distinct cs'"
        "\<forall>x\<in>set cs'. \<exists>v. connection_info w x = Some (v, g')"
        by (auto simp: registry_ok_def)
      have "c \<notin> set cs'" using *(3) assms(2) by auto
      then show ?thesis using * by (auto simp: w'_def)
    qed
  qed
  then have "registry_ok (world_of (broadcast_to_group e False w' g
      (user_online_event u (now e w')) (Some c)))"
    by (rule registry_ok_broadcast)
  then show ?thesis using False by (simp add: connect_def Let_def w'_def cs0_def)
qed

lemma registry_ok_typing: "registry_ok (w\<lparr>typing_users := x\<rparr>) = registry_ok w"
  by (simp add: registry_ok_def)

lemma registry_ok_db: "registry_ok (w\<lparr>db_calls := x\<rparr>) = registry_ok w"
  by (simp add: registry_ok_def)

lemma registry_ok_set_typing:
  "registry_ok w \<Longrightarrow> registry_ok (world_of (set_typing e held w g u n))"
  by (simp add: set_typing_def Let_def registry_ok_broadcast registry_ok_typing)

lemma registry_ok_clear_typing:
  "registry_ok w \<Longrightarrow> registry_ok (world_of (clear_typing e held w g u))"
  by (auto simp: clear_typing_def Let_def discard_typing_def registry_ok_typing
      intro!: registry_ok_broadcast split: option.splits)

lemma send_to_user_loop_frame:
  "\<exists>x. send_to_user_loop e u m cs w = w\<lparr>wire := x\<rparr>"
proof (induction cs arbitrary: w)
  case Nil
  have "w = w\<lparr>wire := wire w\<rparr>" by simp
  then show ?case by (metis send_to_user_loop.simps(1))
next
  case (Cons c cs)
  have step: "\<exists>x. send_to_user_loop e u m cs (fst (send_text e w c m)) = w\<lparr>wire := x\<rparr>"
  proof -
    obtain x where "send_to_user_loop e u m cs (fst (send_text e w c m))
        = (fst (send_text e w c m))\<lparr>wire := x\<rparr>"
      using Cons.IH by blast
    then have "send_to_user_loop e u m cs (fst (send_text e w c m)) = w\<lparr>wire := x\<rparr>"
      by (simp add: send_text_def Let_def)
    then show ?thesis by blast
  qed
  show ?case using step Cons.IH[of w]
    by (auto split: option.splits)
qed

lemma registry_ok_send_to_user:
  "registry_ok w \<Longrightarrow> registry_ok (send_to_user e w g u m)"
proof -
  assume ok: "registry_ok w"
  show ?thesis
  proof (cases "group_connections w g")
    case None
    then show ?thesis using ok by (simp add: send_to_user_def)
  next
    case (Some cs)
    obtain x where "send_to_user_loop e u m cs w = w\<lparr>wire := x\<rparr>"
      using send_to_user_loop_frame by blast
    then show ?thesis using ok Some by (simp add: send_to_user_def registry_ok_wire)
  qed
qed

lemma handle_message_preserved:
  assumes db: "\<And>w x. P w \<Longrightarrow> P (w\<lparr>db_calls := x\<rparr>)"
    and bc: "\<And>w g m. P w \<Longrightarrow> P (world_of (broadcast_to_group e held w g m None))"
    and ct: "\<And>w g u. P w \<Longrightarrow> P (world_of (clear_typing e held w g u))"
    and P: "P w"
  shows "P (world_of (handle_message e held w s m))"
proof -
  have tail: "P (world_of
      (case broadcast_message e held (w\<lparr>db_calls := c\<rparr>) (group_id s) nm of
         Done w2 \<Rightarrow> clear_typing e held w2 (group_id s) (user_id s)
       | Deadlock w2 \<Rightarrow> Deadlock w2))" for c nm
  proof -
    have "P (world_of (broadcast_message e held (w\<lparr>db_calls := c\<rparr>) (group_id s) nm))"
      unfolding broadcast_message_def by (rule bc) (rule db[OF P])
    then show ?thesis
      by (cases "broadcast_message e held (w\<lparr>db_calls := c\<rparr>) (group_id s) nm")
         (simp_all add: ct)
  qed
  show ?thesis
    unfolding handle_message_def Let_def
    by (simp add: P db tail split: json.split option.split)
qed

lemma handle_frame_preserved:
  assumes wire: "\<And>w x. P w \<Longrightarrow> P (w\<lparr>wire := x\<rparr>)"
    and db: "\<And>w x. P w \<Longrightarrow> P (w\<lparr>db_calls := x\<rparr>)"
    and bc: "\<And>w g m. P w \<Longrightarrow> P (world_of (broadcast_to_group e held w g m None))"
    and ct: "\<And>w g u. P w \<Longrightarrow> P (world_of (clear_typing e held w g u))"
    and st: "\<And>w g u n. P w \<Longrightarrow> P (world_of (set_typing e held w g u n))"
    and P: "P w"
  shows "P (world_of (handle_frame e held w s d))"
proof -
  have hm: "P (world_of (handle_message e held w s m))" for m
    using db bc ct P by (rule handle_message_preserved)
  have hr: "P (handle_read e w s m)" for m
    by (simp add: handle_read_def Let_def P db split: option.split)
  have pg: "P (fst (send_text e w (websocket s) pong_event))"
    by (simp add: send_text_def Let_def wire P)
  show ?thesis
    unfolding handle_frame_def Let_def
    by (simp add: P hm hr pg st ct split: option.split json.split)
qed

lemma registry_ok_handle_frame:
  "registry_ok w \<Longrightarrow> registry_ok (world_of (handle_frame e held w s d))"
  by (rule handle_frame_preserved[where P = registry_ok])
     (simp_all add: registry_ok_wire registry_ok_db registry_ok_broadcast
        registry_ok_clear_typing registry_ok_set_typing)

lemma registry_ok_init: "registry_ok init_world"
  by (simp add: registry_ok_def init_world_def)

lemma reachable_registry_ok: "reachable w \<Longrightarrow> registry_ok w"
proof (induction rule: reachable.induct)
  case r_init
  show ?case by (rule registry_ok_init)
qed (simp_all add: registry_ok_connect registry_ok_disconnect registry_ok_broadcast
    registry_ok_set_typing registry_ok_clear_typing registry_ok_send_to_user
    registry_ok_handle_frame)

subsection \<open>The example room\<close>

lemma connect_free:
  "connect e False w c g u =
     cleanup e False
       (w\<lparr>group_connections := (group_connections w)(g \<mapsto> List.insert c (case group_connections w g of None \<Rightarrow> [] | Some cs \<Rightarrow> cs)),
          connection_info := (connection_info w)(c \<mapsto> (u, g)),
          wire := wire w @ loop_entries e (user_online_event u (now e w)) (Some c)
             (List.insert c (case group_connections w g of None \<Rightarrow> [] | Some cs \<Rightarrow> cs)) (length (wire w))\<rparr>)
       (failed (loop_entries e (user_online_event u (now e w)) (Some c)
             (List.insert c (case group_connections w g of None \<Rightarrow> [] | Some cs \<Rightarrow> cs)) (length (wire w))))"
  by (simp add: connect_def Let_def broadcast_eq now_def)

lemma room1_eq:
  "room1 = \<lparr>group_connections = [''R1'' \<mapsto> [1]],
     connection_info = [1 \<mapsto> (''alice'', ''R1'')],
     typing_users = Map.empty, wire = [], db_calls = []\<rparr>"
  by (simp add: room1_def connect_free init_world_def env_with_def failed_def)

lemma room2_eq:
  "room2 = \<lparr>group_connections = [''R1'' \<mapsto> [2, 1]],
     connection_info = [1 \<mapsto> (''alice'', ''R1''), 2 \<mapsto> (''bob'', ''R1'')],
     typing_users = Map.empty,
     wire = [(1, user_online_event ''bob'' noon, True)], db_calls = []\<rparr>"
  by (simp add: room2_def room1_eq connect_free env_with_def failed_def now_def)

lemma room3_eq:
  "room3 = \<lparr>group_connections = [''R1'' \<mapsto> [3, 2, 1]],
     connection_info = [1 \<mapsto> (''alice'', ''R1''), 2 \<mapsto> (''bob'', ''R1''),
        3 \<mapsto> (''carol'', ''R1'')],
     typing_users = Map.empty,
     wire = [(1, user_online_event ''bob'' noon, True),
             (2, user_online_event ''carol'' noon, True),
             (1, user_online_event ''carol'' noon, True)], db_calls = []\<rparr>"
  by (simp add: room3_def room2_eq connect_free env_with_def failed_def now_def)

lemma reachable_room1: "reachable room1"
  unfolding room1_def by (rule r_connect[OF r_init]) (simp add: init_world_def)

lemma reachable_room2: "reachable room2"
  unfolding room2_def by (rule r_connect[OF reachable_room1]) (simp add: room1_eq)

lemma reachable_room3: "reachable room3"
  unfolding room3_def by (rule r_connect[OF reachable_room2]) (simp add: room2_eq)

lemma disconnect_free:
  "disconnect e False w c =
     (case connection_info w c of
        None \<Rightarrow> Done w
      | Some (u, g) \<Rightarrow>
          broadcast_to_group e True
            (discard_typing (discard_connection
               (w\<lparr>connection_info := (connection_info w)(c := None)\<rparr>) g c) g u)
            g (user_offline_event u (now e w)) None)"
  by (simp add: disconnect.simps)

lemma broadcast_held:
  "broadcast_to_group e True w g m ex =
     (case group_connections w g of
        None \<Rightarrow> Done w
      | Some cs \<Rightarrow>
          (if failed (loop_entries e m ex cs (length (wire w))) = []
           then Done (w\<lparr>wire := wire w @ loop_entries e m ex cs (length (wire w))\<rparr>)
           else Deadlock (w\<lparr>wire := wire w @ loop_entries e m ex cs (length (wire w))\<rparr>)))"
  by (simp add: broadcast_eq cleanup_held split: option.splits)

subsection \<open>C3: a connection is in at most one room\<close>

text \<open>
  Claim C3. In every state reachable by the protocol's operations, a connection handle
  appears in the membership set of at most one room: if it is a member of the sets of
  rooms \<open>g1\<close> and \<open>g2\<close>, these are the same room.
\<close>

theorem one_room_per_connection:
  assumes "reachable w"
    and "group_connections w g1 = Some cs1" and "c \<in> set cs1"
    and "group_connections w g2 = Some cs2" and "c \<in> set cs2"
  shows "g1 = g2"
proof -
  have ok: "registry_ok w" using assms(1) by (rule reachable_registry_ok)
  from ok assms(2,3) obtain u1 where "connection_info w c = Some (u1, g1)"
    unfolding registry_ok_def by blast
  moreover from ok assms(4,5) obtain u2 where "connection_info w c = Some (u2, g2)"
    unfolding registry_ok_def by blast
  ultimately show ?thesis by simp
qed

theorem one_room_per_connection_witness:
  "reachable room3 \<and> group_connections room3 ''R1'' = Some [3, 2, 1] \<and> (2::nat) \<in> set [3, 2, 1]
     \<and> ''R1'' = ''R1''"
proof -
  have g: "group_connections room3 ''R1'' = Some [3, 2, 1]" by (simp add: room3_eq)
  have m: "(2::nat) \<in> set [3, 2, 1]" by simp
  show ?thesis
    using one_room_per_connection[OF reachable_room3 g m g m] reachable_room3 g m by simp
qed

lemma broadcast_held_frame:
  assumes "broadcast_to_group e True w g m ex = Done w'"
  shows "\<exists>x. w' = w\<lparr>wire := x\<rparr>"
proof (cases "group_connections w g")
  case None
  with assms have "w' = w" by (simp add: broadcast_held)
  then have "w' = w\<lparr>wire := wire w\<rparr>" by simp
  then show ?thesis by (rule exI)
next
  case (Some cs)
  with assms show ?thesis by (auto simp: broadcast_held split: if_splits)
qed



lemma disconnect_returned_no_record:
  assumes "disconnect e held w c = Done w1"
  shows "connection_info w1 c = None"
proof -
  have free: "\<not> held" using assms by (auto simp: disconnect.simps)
  show ?thesis
  proof (cases "connection_info w c")
    case None
    with assms free show ?thesis by (simp add: disconnect_free)
  next
    case (Some info)
    obtain u g where info: "info = (u, g)" by (cases info)
    let ?w3 = "discard_typing (discard_connection
               (w\<lparr>connection_info := (connection_info w)(c := None)\<rparr>) g c) g u"
    from assms free Some info
    have "broadcast_to_group e True ?w3 g (user_offline_event u (now e w)) None = Done w1"
      by (simp add: disconnect_free)
    then obtain x where "w1 = ?w3\<lparr>wire := x\<rparr>" using broadcast_held_frame by blast
    then show ?thesis by (simp add: discard_connection_info)
  qed
qed

lemma no_record_kept:
  "connection_info w d = None \<longrightarrow> connection_info (world_of (cleanup e held w dead)) d = None"
proof (rule preserved(3)[where P = "\<lambda>w. connection_info w d = None"])
  fix w :: world and x
  assume "connection_info w d = None"
  then show "connection_info (w\<lparr>wire := x\<rparr>) d = None" by simp
next
  fix w :: world and c u g
  assume "connection_info w d = None"
  then show "connection_info (discard_typing (discard_connection
      (w\<lparr>connection_info := (connection_info w)(c := None)\<rparr>) g c) g u) d = None"
    by (simp add: discard_connection_info)
qed

lemma cleanup_returned_no_record:
  "cleanup e False w dead = Done w' \<Longrightarrow> d \<in> set dead \<Longrightarrow> connection_info w' d = None"
proof (induction dead arbitrary: w)
  case Nil
  then show ?case by simp
next
  case (Cons c dead)
  show ?case
  proof (cases "disconnect e False w c")
    case (Deadlock w1)
    with Cons.prems(1) show ?thesis by simp
  next
    case (Done w1)
    with Cons.prems(1) have rest: "cleanup e False w1 dead = Done w'" by simp
    show ?thesis
    proof (cases "d \<in> set dead")
      case True
      then show ?thesis using Cons.IH[OF rest] by simp
    next
      case False
      with Cons.prems(2) have "d = c" by simp
      then have "connection_info w1 d = None"
        using disconnect_returned_no_record[OF Done] by simp
      then show ?thesis using no_record_kept[of w1 d e False dead] rest by simp
    qed
  qed
qed

text \<open>
  When a broadcast does return, every connection whose send failed in its loop has lost
  its record and is in no room.
\<close>

lemma returned_broadcast_removes_failed:
  assumes ok: "registry_ok w" and cs: "group_connections w g = Some cs"
    and ret: "broadcast_to_group e False w g m ex = Done w'"
    and d: "d \<in> set (failed (loop_entries e m ex cs (length (wire w))))"
  shows "connection_info w' d = None
     \<and> (\<forall>g' cs'. group_connections w' g' = Some cs' \<longrightarrow> d \<notin> set cs')"
proof -
  have "cleanup e False (w\<lparr>wire := wire w @ loop_entries e m ex cs (length (wire w))\<rparr>)
      (failed (loop_entries e m ex cs (length (wire w)))) = Done w'"
    using ret cs by (simp add: broadcast_eq)
  then have none: "connection_info w' d = None" using d by (rule cleanup_returned_no_record)
  have "registry_ok (world_of (broadcast_to_group e False w g m ex))"
    using ok by (rule registry_ok_broadcast)
  then have "registry_ok w'" using ret by simp
  then have "\<forall>g' cs'. group_connections w' g' = Some cs' \<longrightarrow> d \<notin> set cs'"
    unfolding registry_ok_def using none by fastforce
  then show ?thesis using none by blast
qed

subsection \<open>C1: cleanup after a failed delivery\<close>

text \<open>
  Claim C1 says that a connection whose delivery fails during a broadcast is removed from
  the registry and announced offline exactly once. With two broken transports in one room
  the code does not get that far. In room R1 (connections 3, 2, 1 of carol, bob and alice)
  the transports of 2 and 3 are broken and a \<^verbatim>\<open>new_message\<close> event is broadcast. Both sends
  fail; \<^verbatim>\<open>disconnect\<close> of connection 3 takes the lock and broadcasts carol's
  \<^verbatim>\<open>user_offline\<close> with the lock held; the send to connection 2 fails again, and the nested
  \<^verbatim>\<open>disconnect\<close> of connection 2 awaits the lock, which is never released. The
  broadcast never returns, connection 2 stays registered, bob stays online and no
  \<^verbatim>\<open>user_offline\<close> event for bob is ever sent.
\<close>

theorem broadcast_two_failures_blocks:
  "stuck_broadcast = Deadlock (world_of stuck_broadcast)
   \<and> map (\<lambda>x. (fst x, event_type (fst (snd x)), snd (snd x)))
         (drop (length (wire room3)) (wire (world_of stuck_broadcast))) =
       [(3, JStr ''new_message'', False), (2, JStr ''new_message'', False),
        (1, JStr ''new_message'', True),
        (2, JStr ''user_offline'', False), (1, JStr ''user_offline'', True)]
   \<and> group_connections (world_of stuck_broadcast) ''R1'' = Some [2, 1]
   \<and> connection_info (world_of stuck_broadcast) 2 = Some (''bob'', ''R1'')
   \<and> get_online_users (world_of stuck_broadcast) ''R1'' = [''bob'', ''alice'']"
proof -
  have eq: "stuck_broadcast = Deadlock
     (room3\<lparr>group_connections := [''R1'' \<mapsto> [2, 1]],
        connection_info := [1 \<mapsto> (''alice'', ''R1''), 2 \<mapsto> (''bob'', ''R1'')],
        wire := wire room3 @
          [(3, new_message_event stored noon, False), (2, new_message_event stored noon, False),
           (1, new_message_event stored noon, True),
           (2, user_offline_event ''carol'' noon, False),
           (1, user_offline_event ''carol'' noon, True)]\<rparr>)"
    unfolding stuck_broadcast_def
    by (simp add: broadcast_eq room3_eq env_with_def failed_def disconnect_free
        disconnect_held cleanup_held discard_connection_def discard_typing_def now_def
        fun_upd_twist)
  show ?thesis
    unfolding eq
    by (simp add: room3_eq event_type_def py_get_def new_message_event_def
        user_offline_event_def get_online_users_def)
qed

subsection \<open>C2: disconnecting twice\<close>

text \<open>
  Claim C2. After a first \<^verbatim>\<open>disconnect\<close> of a connection has returned, the connection has
  no record, and a second \<^verbatim>\<open>disconnect\<close> of it returns with the state as it found it:
  the three dictionaries, the wire and the persistence log are unchanged, whatever the
  transports do.
\<close>

theorem disconnect_twice:
  assumes "disconnect e held w c = Done w1"
  shows "connection_info w1 c = None \<and> disconnect e' False w1 c = Done w1"
proof -
  have "connection_info w1 c = None" using assms by (rule disconnect_returned_no_record)
  then show ?thesis by (simp add: disconnect_free)
qed

theorem disconnect_twice_witness:
  "disconnect (env_with []) False room1 1 = Done (room1\<lparr>group_connections := Map.empty,
       connection_info := Map.empty\<rparr>)
   \<and> connection_info (room1\<lparr>group_connections := Map.empty, connection_info := Map.empty\<rparr>) 1 = None
   \<and> disconnect (env_with [1]) False
        (room1\<lparr>group_connections := Map.empty, connection_info := Map.empty\<rparr>) 1 =
      Done (room1\<lparr>group_connections := Map.empty, connection_info := Map.empty\<rparr>)"
proof -
  have h: "disconnect (env_with []) False room1 1 = Done (room1\<lparr>group_connections := Map.empty,
       connection_info := Map.empty\<rparr>)"
    by (simp add: disconnect_free room1_eq broadcast_held discard_connection_def
        discard_typing_def fun_upd_idem)
  show ?thesis using disconnect_twice[OF h, of "env_with [1]"] h by simp
qed

lemma set_typing_free:
  "set_typing e False w g u n =
     broadcast_to_group e False
       (w\<lparr>typing_users := (typing_users w)(g \<mapsto> List.insert u
            (case typing_users w g of None \<Rightarrow> [] | Some us \<Rightarrow> us))\<rparr>)
       g (typing_start_event u n (now e w)) None"
  by (simp add: set_typing_def Let_def now_def)

lemma clear_typing_free:
  "clear_typing e False w g u =
     broadcast_to_group e False (discard_typing w g u) g (typing_stop_event u (now e w)) None"
  by (simp add: clear_typing_def Let_def now_def discard_typing_def split: option.splits)

lemma lone_typing_eq:
  "lone_typing = init_world\<lparr>typing_users := [''R2'' \<mapsto> []]\<rparr>"
  by (simp add: lone_typing_def set_typing_free clear_typing_free broadcast_eq init_world_def
      discard_typing_def)

lemma reachable_lone_typing: "reachable lone_typing"
  unfolding lone_typing_def by (intro r_clear_typing r_set_typing r_init)

subsection \<open>C4: no empty room entries\<close>

text \<open>
  Claim C4 says that neither the room map nor the typing map ever holds an empty set.
  The typing map does: \<^verbatim>\<open>clear_typing\<close> and \<^verbatim>\<open>disconnect\<close> discard the user and leave the
  set in place. After \<^verbatim>\<open>set_typing\<close> and \<^verbatim>\<open>clear_typing\<close> of alice in room R2, which has
  no connection, the typing map holds the empty set for R2.
\<close>

theorem typing_entry_left_empty:
  "reachable lone_typing \<and> typing_users lone_typing ''R2'' = Some []
     \<and> group_connections lone_typing ''R2'' = None"
  using reachable_lone_typing by (simp add: lone_typing_eq init_world_def)

text \<open>
  Claim C4, amended. In every reachable state the room map holds no empty set, and a room
  for which no connection has a record has no entry in the room map and no online user.
\<close>

theorem room_entry_never_empty:
  assumes "reachable w"
  shows "group_connections w g \<noteq> Some []
     \<and> ((\<forall>c u. connection_info w c \<noteq> Some (u, g)) \<longrightarrow>
          group_connections w g = None \<and> get_online_users w g = [])"
proof -
  have ok: "registry_ok w" using assms by (rule reachable_registry_ok)
  have ne: "group_connections w g \<noteq> Some []"
    using ok unfolding registry_ok_def by blast
  have "group_connections w g = None" if none: "\<forall>c u. connection_info w c \<noteq> Some (u, g)"
  proof (cases "group_connections w g")
    case None
    then show ?thesis .
  next
    case (Some cs)
    with ok have "cs \<noteq> []" and "\<forall>c\<in>set cs. \<exists>u. connection_info w c = Some (u, g)"
      unfolding registry_ok_def by blast+
    then obtain c u where "connection_info w c = Some (u, g)"
      by (cases cs) auto
    with none show ?thesis by blast
  qed
  then show ?thesis using ne by (auto simp: get_online_users_def)
qed

theorem room_entry_never_empty_witness:
  "reachable room1 \<and> group_connections room1 ''R2'' \<noteq> Some []
     \<and> (\<forall>c u. connection_info room1 c \<noteq> Some (u, ''R2''))
     \<and> group_connections room1 ''R2'' = None \<and> get_online_users room1 ''R2'' = []"
proof -
  have h: "\<forall>c u. connection_info room1 c \<noteq> Some (u, ''R2'')"
    by (simp add: room1_eq)
  show ?thesis using room_entry_never_empty[OF reachable_room1, of "''R2''"] h reachable_room1
    by blast
qed

lemma two_devices_eq:
  "two_devices = \<lparr>group_connections = [''R1'' \<mapsto> [2, 1]],
     connection_info = [1 \<mapsto> (''alice'', ''R1''), 2 \<mapsto> (''alice'', ''R1'')],
     typing_users = Map.empty,
     wire = [(1, user_online_event ''alice'' noon, True)], db_calls = []\<rparr>"
  by (simp add: two_devices_def room1_eq connect_free env_with_def failed_def now_def)

lemma reachable_two_devices: "reachable two_devices"
  unfolding two_devices_def by (rule r_connect[OF reachable_room1]) (simp add: room1_eq)

lemma count_list_map_filter:
  "count_list (map f (filter p xs)) y = length (filter (\<lambda>x. p x \<and> f x = y) xs)"
  by (induction xs) auto

subsection \<open>C5: the online users of a room\<close>

text \<open>
  Claim C5 says that \<^verbatim>\<open>get_online_users\<close> lists every user once. It lists one entry for
  every connection: alice, connected to R1 from two devices, is listed twice.
\<close>

theorem online_users_repeat:
  "reachable two_devices \<and> get_online_users two_devices ''R1'' = [''alice'', ''alice'']
     \<and> \<not> distinct (get_online_users two_devices ''R1'')"
  using reachable_two_devices by (simp add: two_devices_eq get_online_users_def)

text \<open>
  Claim C5, amended. For an unknown room \<^verbatim>\<open>get_online_users\<close> returns the empty list.
  Otherwise a user occurs in the result once for every connection of the room whose record
  carries that user; in a reachable state the result has one entry for every connection
  of the room, and its elements are exactly the users of those connections.
\<close>

theorem online_users_per_connection:
  "(group_connections w g = None \<longrightarrow> get_online_users w g = [])
   \<and> (\<forall>cs. group_connections w g = Some cs \<longrightarrow>
        (\<forall>u. count_list (get_online_users w g) u =
               length (filter (\<lambda>c. \<exists>r. connection_info w c = Some (u, r)) cs))
        \<and> (reachable w \<longrightarrow> length (get_online_users w g) = length cs))"
proof (intro conjI allI impI)
  assume "group_connections w g = None"
  then show "get_online_users w g = []" by (simp add: get_online_users_def)
next
  fix cs u
  assume cs: "group_connections w g = Some cs"
  have "(\<lambda>c. connection_info w c \<noteq> None \<and> fst (the (connection_info w c)) = u)
      = (\<lambda>c. \<exists>r. connection_info w c = Some (u, r))"
    by (rule ext) auto
  then show "count_list (get_online_users w g) u =
      length (filter (\<lambda>c. \<exists>r. connection_info w c = Some (u, r)) cs)"
    using cs by (simp add: get_online_users_def count_list_map_filter)
next
  fix cs
  assume cs: "group_connections w g = Some cs" and r: "reachable w"
  have "registry_ok w" using r by (rule reachable_registry_ok)
  with cs have "\<forall>c\<in>set cs. connection_info w c \<noteq> None"
    unfolding registry_ok_def by fastforce
  then have "filter (\<lambda>c. connection_info w c \<noteq> None) cs = cs" by (simp add: filter_id_conv)
  then show "length (get_online_users w g) = length cs"
    using cs by (simp add: get_online_users_def)
qed

theorem online_users_per_connection_witness:
  "group_connections two_devices ''R1'' = Some [2, 1]
   \<and> count_list (get_online_users two_devices ''R1'') ''alice'' =
       length (filter (\<lambda>c. \<exists>r. connection_info two_devices c = Some (''alice'', r)) [2, 1])
   \<and> reachable two_devices
   \<and> length (get_online_users two_devices ''R1'') = length [2::nat, 1]
   \<and> group_connections two_devices ''R2'' = None \<and> get_online_users two_devices ''R2'' = []"
proof -
  have g: "group_connections two_devices ''R1'' = Some [2, 1]" by (simp add: two_devices_eq)
  have n: "group_connections two_devices ''R2'' = None" by (simp add: two_devices_eq)
  show ?thesis
    using online_users_per_connection[of two_devices "''R1''"]
      online_users_per_connection[of two_devices "''R2''"] g n reachable_two_devices
    by blast
qed

lemma loop_entries_event: "x \<in> set (loop_entries e m ex cs n) \<Longrightarrow> fst (snd x) = m"
  by (induction cs arbitrary: n) (auto split: if_splits)

lemma loop_entries_excluded: "c \<notin> fst ` set (loop_entries e m (Some c) cs n)"
  by (induction cs arbitrary: n) auto

lemma loop_entries_member:
  "c' \<in> set cs \<Longrightarrow> Some c' \<noteq> ex \<Longrightarrow>
     \<exists>ok. (c', m, ok) \<in> set (loop_entries e m ex cs n) \<and> ((\<forall>k. \<not> send_fails e k c') \<longrightarrow> ok)"
proof (induction cs arbitrary: n)
  case Nil
  then show ?case by simp
next
  case (Cons a cs)
  show ?case
  proof (cases "a = c'")
    case True
    then show ?thesis using Cons.prems by auto
  next
    case False
    with Cons.prems have "c' \<in> set cs" by simp
    from Cons.IH[OF this Cons.prems(2)] show ?thesis by (cases "Some a = ex") auto
  qed
qed

lemma offline_event_type: "event_type (user_offline_event u t) = JStr ''user_offline''"
  by (simp add: event_type_def py_get_def user_offline_event_def)

text \<open>
  What an operation adds to the wire: the events of its own loop, then the
  \<^verbatim>\<open>user_offline\<close> events of the cleanup. \<open>P\<close> is any property of events that the
  \<^verbatim>\<open>user_offline\<close> events stamped by the clock have.
\<close>

lemma wire_disconnect_all:
  assumes off: "\<And>u n. P (user_offline_event u (utcnow e n))"
  shows "\<exists>rest. wire (world_of (disconnect e held w c)) = wire w @ rest
           \<and> list_all (\<lambda>x. P (fst (snd x))) rest"
proof (cases held)
  case True
  then show ?thesis by (simp add: disconnect_held)
next
  case False
  show ?thesis
  proof (cases "connection_info w c")
    case None
    with False show ?thesis by (simp add: disconnect_free)
  next
    case (Some info)
    obtain u g where info: "info = (u, g)" by (cases info)
    let ?w3 = "discard_typing (discard_connection
               (w\<lparr>connection_info := (connection_info w)(c := None)\<rparr>) g c) g u"
    have w3: "wire ?w3 = wire w" by (simp add: discard_wire)
    have eq: "disconnect e held w c =
        broadcast_to_group e True ?w3 g (user_offline_event u (now e w)) None"
      using False Some info by (simp add: disconnect_free)
    show ?thesis
    proof (cases "group_connections ?w3 g")
      case None
      then show ?thesis using w3 by (simp add: eq broadcast_held)
    next
      case (Some cs)
      let ?loop = "loop_entries e (user_offline_event u (now e w)) None cs (length (wire w))"
      have "wire (world_of (disconnect e held w c)) = wire w @ ?loop"
        using Some w3 by (simp add: eq broadcast_held)
      moreover have "list_all (\<lambda>x. P (fst (snd x))) ?loop"
        unfolding list_all_iff now_def using loop_entries_event off by fastforce
      ultimately show ?thesis by blast
    qed
  qed
qed

lemma wire_cleanup_all:
  assumes off: "\<And>u n. P (user_offline_event u (utcnow e n))"
  shows "\<exists>rest. wire (world_of (cleanup e held w dead)) = wire w @ rest
           \<and> list_all (\<lambda>x. P (fst (snd x))) rest"
proof (induction dead arbitrary: w)
  case Nil
  then show ?case by simp
next
  case (Cons c dead)
  obtain r1 where r1: "wire (world_of (disconnect e held w c)) = wire w @ r1"
    "list_all (\<lambda>x. P (fst (snd x))) r1"
    using wire_disconnect_all[of P, OF off] by blast
  show ?case
  proof (cases "disconnect e held w c")
    case (Done w')
    obtain r2 where r2: "wire (world_of (cleanup e held w' dead)) = wire w' @ r2"
      "list_all (\<lambda>x. P (fst (snd x))) r2"
      using Cons.IH by blast
    have "wire (world_of (cleanup e held w (c # dead))) = wire w @ (r1 @ r2)"
      using Done r1 r2 by simp
    moreover have "list_all (\<lambda>x. P (fst (snd x))) (r1 @ r2)" using r1 r2 by simp
    ultimately show ?thesis by blast
  next
    case (Deadlock w')
    then show ?thesis using r1 by auto
  qed
qed

lemma wire_broadcast_all:
  assumes off: "\<And>u n. P (user_offline_event u (utcnow e n))"
    and cs: "group_connections w g = Some cs"
  shows "\<exists>rest. wire (world_of (broadcast_to_group e held w g m ex)) =
           wire w @ loop_entries e m ex cs (length (wire w)) @ rest
           \<and> list_all (\<lambda>x. P (fst (snd x))) rest"
proof -
  let ?w = "w\<lparr>wire := wire w @ loop_entries e m ex cs (length (wire w))\<rparr>"
  obtain rest where "wire (world_of (cleanup e held ?w
      (failed (loop_entries e m ex cs (length (wire w)))))) = wire ?w @ rest"
    "list_all (\<lambda>x. P (fst (snd x))) rest"
    using wire_cleanup_all[of P, OF off] by blast
  then show ?thesis using cs by (auto simp: broadcast_eq)
qed

lemma wire_broadcast:
  assumes "group_connections w g = Some cs"
  shows "\<exists>rest. wire (world_of (broadcast_to_group e held w g m ex)) =
           wire w @ loop_entries e m ex cs (length (wire w)) @ rest \<and> offline_only rest"
  unfolding offline_only_def
  by (rule wire_broadcast_all[OF _ assms]) (rule offline_event_type)

lemma excluded_loop_shape:
  assumes cs: "group_connections w r = Some cs"
  shows "\<exists>loop rest.
     sent_since w (world_of (broadcast_to_group e held w r ev (Some c))) = loop @ rest
     \<and> offline_only rest \<and> c \<notin> fst ` set loop
     \<and> (\<forall>x\<in>set loop. fst (snd x) = ev)
     \<and> (\<forall>c'\<in>set cs. c' \<noteq> c \<longrightarrow>
          (\<exists>ok. (c', ev, ok) \<in> set loop \<and> ((\<forall>n. \<not> send_fails e n c') \<longrightarrow> ok)))"
proof -
  let ?loop = "loop_entries e ev (Some c) cs (length (wire w))"
  obtain rest where rest: "wire (world_of (broadcast_to_group e held w r ev (Some c))) =
      wire w @ ?loop @ rest" "offline_only rest"
    using wire_broadcast[OF cs] by blast
  have 1: "sent_since w (world_of (broadcast_to_group e held w r ev (Some c))) = ?loop @ rest"
    using rest(1) by (simp add: sent_since_def)
  have 2: "c \<notin> fst ` set ?loop" by (rule loop_entries_excluded)
  have 3: "\<forall>x\<in>set ?loop. fst (snd x) = ev" using loop_entries_event by blast
  have 4: "\<forall>c'\<in>set cs. c' \<noteq> c \<longrightarrow>
          (\<exists>ok. (c', ev, ok) \<in> set ?loop \<and> ((\<forall>n. \<not> send_fails e n c') \<longrightarrow> ok))"
    using loop_entries_member by simp
  show ?thesis using 1 rest(2) 2 3 4 by blast
qed

subsection \<open>C6: the excluded connection\<close>

text \<open>
  The loop as a single task runs it. A broadcast of event \<open>ev\<close> to room \<open>r\<close> that excludes
  connection \<open>c\<close> puts on the wire first one send of \<open>ev\<close> for every connection of the
  room other than \<open>c\<close> (delivered whenever that connection's transport does not fail) and
  none for \<open>c\<close>; whatever follows are the \<^verbatim>\<open>user_offline\<close> events of the failure cleanup.
  In particular \<^verbatim>\<open>connect\<close>, which registers \<open>c\<close> and at once broadcasts \<^verbatim>\<open>user_online\<close>
  excluding \<open>c\<close>, sends \<^verbatim>\<open>user_online\<close> to every connection that was in the room and not
  to \<open>c\<close>.
\<close>

theorem broadcast_excludes:
  "(\<forall>cs. group_connections w r = Some cs \<longrightarrow>
      (\<exists>loop rest.
         sent_since w (world_of (broadcast_to_group e held w r ev (Some c))) = loop @ rest
         \<and> offline_only rest \<and> c \<notin> fst ` set loop
         \<and> (\<forall>x\<in>set loop. fst (snd x) = ev)
         \<and> (\<forall>c'\<in>set cs. c' \<noteq> c \<longrightarrow>
              (\<exists>ok. (c', ev, ok) \<in> set loop \<and> ((\<forall>n. \<not> send_fails e n c') \<longrightarrow> ok)))))
   \<and> (\<exists>loop rest.
         sent_since w (world_of (connect e False w c r u)) = loop @ rest
         \<and> offline_only rest \<and> c \<notin> fst ` set loop
         \<and> (\<forall>x\<in>set loop. fst (snd x) = user_online_event u (now e w))
         \<and> (\<forall>c'\<in>set (case group_connections w r of None \<Rightarrow> [] | Some cs \<Rightarrow> cs). c' \<noteq> c \<longrightarrow>
              (\<exists>ok. (c', user_online_event u (now e w), ok) \<in> set loop
                 \<and> ((\<forall>n. \<not> send_fails e n c') \<longrightarrow> ok))))"
proof (intro conjI allI impI)
  fix cs
  assume "group_connections w r = Some cs"
  then show "\<exists>loop rest.
         sent_since w (world_of (broadcast_to_group e held w r ev (Some c))) = loop @ rest
         \<and> offline_only rest \<and> c \<notin> fst ` set loop
         \<and> (\<forall>x\<in>set loop. fst (snd x) = ev)
         \<and> (\<forall>c'\<in>set cs. c' \<noteq> c \<longrightarrow>
              (\<exists>ok. (c', ev, ok) \<in> set loop \<and> ((\<forall>n. \<not> send_fails e n c') \<longrightarrow> ok)))"
    by (rule excluded_loop_shape)
next
  define cs0 where "cs0 = (case group_connections w r of None \<Rightarrow> [] | Some cs \<Rightarrow> cs)"
  define w' where "w' = w\<lparr>group_connections := (group_connections w)(r \<mapsto> List.insert c cs0),
                    connection_info := (connection_info w)(c \<mapsto> (u, r))\<rparr>"
  define ev where "ev = user_online_event u (now e w)"
  have conn: "connect e False w c r u = broadcast_to_group e False w' r ev (Some c)"
    by (simp add: connect_def Let_def w'_def cs0_def ev_def now_def)
  have g: "group_connections w' r = Some (List.insert c cs0)" by (simp add: w'_def)
  have s: "sent_since w' x = sent_since w x" for x by (simp add: sent_since_def w'_def)
  obtain loop rest where *:
    "sent_since w' (world_of (broadcast_to_group e False w' r ev (Some c))) = loop @ rest"
    "offline_only rest" "c \<notin> fst ` set loop" "\<forall>x\<in>set loop. fst (snd x) = ev"
    "\<forall>c'\<in>set (List.insert c cs0). c' \<noteq> c \<longrightarrow>
          (\<exists>ok. (c', ev, ok) \<in> set loop \<and> ((\<forall>n. \<not> send_fails e n c') \<longrightarrow> ok))"
    using excluded_loop_shape[OF g, of e False ev c] by blast
  have "\<forall>c'\<in>set cs0. c' \<noteq> c \<longrightarrow>
          (\<exists>ok. (c', ev, ok) \<in> set loop \<and> ((\<forall>n. \<not> send_fails e n c') \<longrightarrow> ok))"
    using *(5) by simp
  then show "\<exists>loop rest.
         sent_since w (world_of (connect e False w c r u)) = loop @ rest
         \<and> offline_only rest \<and> c \<notin> fst ` set loop
         \<and> (\<forall>x\<in>set loop. fst (snd x) = user_online_event u (now e w))
         \<and> (\<forall>c'\<in>set (case group_connections w r of None \<Rightarrow> [] | Some cs \<Rightarrow> cs). c' \<noteq> c \<longrightarrow>
              (\<exists>ok. (c', user_online_event u (now e w), ok) \<in> set loop
                 \<and> ((\<forall>n. \<not> send_fails e n c') \<longrightarrow> ok)))"
    using *(1-4) unfolding conn s ev_def cs0_def by blast
qed


theorem broadcast_excludes_witness:
  "group_connections room3 ''R1'' = Some [3, 2, 1]
   \<and> (\<exists>loop rest.
         sent_since room3 (world_of (broadcast_to_group (env_with [2]) False room3 ''R1''
            (new_message_event stored noon) (Some 3))) = loop @ rest
         \<and> offline_only rest \<and> 3 \<notin> fst ` set loop
         \<and> (\<forall>x\<in>set loop. fst (snd x) = new_message_event stored noon)
         \<and> (\<forall>c'\<in>set [3, 2, 1]. c' \<noteq> 3 \<longrightarrow>
              (\<exists>ok. (c', new_message_event stored noon, ok) \<in> set loop
                 \<and> ((\<forall>n. \<not> send_fails (env_with [2]) n c') \<longrightarrow> ok))))
   \<and> (\<exists>loop rest.
         sent_since room2 (world_of (connect (env_with [2]) False room2 3 ''R1'' ''carol''))
           = loop @ rest
         \<and> offline_only rest \<and> 3 \<notin> fst ` set loop
         \<and> (\<forall>x\<in>set loop. fst (snd x) = user_online_event ''carol'' (now (env_with [2]) room2)))"
proof -
  have g: "group_connections room3 ''R1'' = Some [3, 2, 1]" by (simp add: room3_eq)
  note a = broadcast_excludes[of room3 "''R1''" "env_with [2]" False
      "new_message_event stored noon" 3 "''carol''", THEN conjunct1, rule_format, OF g]
  note b = broadcast_excludes[of room2 "''R1''" "env_with [2]" False
      "new_message_event stored noon" 3 "''carol''", THEN conjunct2]
  from b have b': "\<exists>loop rest.
         sent_since room2 (world_of (connect (env_with [2]) False room2 3 ''R1'' ''carol''))
           = loop @ rest
         \<and> offline_only rest \<and> 3 \<notin> fst ` set loop
         \<and> (\<forall>x\<in>set loop. fst (snd x) = user_online_event ''carol'' (now (env_with [2]) room2))"
    by blast
  show ?thesis using g a b' by blast
qed

subsubsection \<open>Under a concurrent registration\<close>

text \<open>The live loop is the single-task loop when no other session registers.\<close>

lemma connect_register:
  "connect e False w c g u =
     broadcast_to_group e False (register w c g u) g (user_online_event u (now e w)) (Some c)"
  by (simp add: connect_def register_def Let_def now_def)

lemma room_size_send_text: "room_size (fst (send_text e w c m)) g = room_size w g"
  by (simp add: send_text_def room_size_def Let_def)

lemma send_loop_live_alone:
  "room_size w g = n \<Longrightarrow>
     send_loop_live e (\<lambda>k. None) g n msg ex cs w dead =
       Exhausted (fst (send_loop e msg ex cs w dead)) (snd (send_loop e msg ex cs w dead))"
proof (induction cs arbitrary: w dead)
  case Nil
  then show ?case by simp
next
  case (Cons c cs)
  have "room_size (fst (send_text e w c msg)) g = n"
    using Cons.prems by (simp add: room_size_send_text)
  then show ?case using Cons.prems Cons.IH
    by (simp add: split_beta)
qed

lemma broadcast_live_alone:
  "broadcast_to_group_live e (\<lambda>k. None) w g msg ex = Returned (broadcast_to_group e False w g msg ex)"
proof (cases "group_connections w g")
  case None
  then show ?thesis by (simp add: broadcast_to_group_live_def broadcast_to_group.simps)
next
  case (Some cs)
  then have "room_size w g = length cs" by (simp add: room_size_def)
  then show ?thesis using Some
    by (simp add: broadcast_to_group_live_def broadcast_to_group.simps send_loop_live_alone)
qed

text \<open>
  Claim C6 says that a broadcast with an excluded connection delivers the event to every
  other connection of the room. The excluded connection is indeed passed over, and a loop
  that no other task disturbs sends to all the others; but the loop runs over the live
  set. In room R1 (connections 3, 2, 1) the event is broadcast with carol's connection 3
  excluded; while the send to connection 2 is suspended, dave's session registers
  connection 4 in R1. The next step of the loop raises \<^verbatim>\<open>RuntimeError\<close>, which nothing in
  \<^verbatim>\<open>broadcast_to_group\<close> catches: connection 1, which is in the room and is not excluded,
  is never sent the event.
\<close>

theorem broadcast_interrupted_by_join:
  "group_connections room3 ''R1'' = Some [3, 2, 1]
   \<and> interrupted_broadcast = RuntimeError (live_world interrupted_broadcast)
   \<and> sent_since room3 (live_world interrupted_broadcast) =
       [(2, new_message_event stored noon, True)]
   \<and> group_connections (live_world interrupted_broadcast) ''R1'' = Some [4, 3, 2, 1]"
proof -
  have eq: "interrupted_broadcast = RuntimeError
     (room3\<lparr>group_connections := [''R1'' \<mapsto> [4, 3, 2, 1]],
        connection_info := [1 \<mapsto> (''alice'', ''R1''), 2 \<mapsto> (''bob'', ''R1''),
          3 \<mapsto> (''carol'', ''R1''), 4 \<mapsto> (''dave'', ''R1'')],
        wire := wire room3 @ [(2, new_message_event stored noon, True)]\<rparr>)"
    unfolding interrupted_broadcast_def
    by (simp add: broadcast_to_group_live_def room3_eq room_size_def send_text_def
        env_with_def dave_joins_def register_def)
  show ?thesis unfolding eq by (simp add: room3_eq sent_since_def)
qed

lemma all_sent_broadcast:
  assumes m: "P m" and off: "\<And>u n. P (user_offline_event u (utcnow e n))"
  shows "all_sent P w (world_of (broadcast_to_group e held w g m ex))"
proof (cases "group_connections w g")
  case None
  then show ?thesis by (simp add: broadcast_eq all_sent_def sent_since_def)
next
  case (Some cs)
  obtain rest where rest: "wire (world_of (broadcast_to_group e held w g m ex)) =
      wire w @ loop_entries e m ex cs (length (wire w)) @ rest"
    "list_all (\<lambda>x. P (fst (snd x))) rest"
    using wire_broadcast_all[of P e, OF off Some] by blast
  have "list_all (\<lambda>x. P (fst (snd x))) (loop_entries e m ex cs (length (wire w)))"
    unfolding list_all_iff using loop_entries_event m by fastforce
  then show ?thesis using rest by (simp add: all_sent_def sent_since_def)
qed

lemma all_sent_refl: "all_sent P w w"
  by (simp add: all_sent_def sent_since_def)

lemma all_sent_disconnect:
  assumes off: "\<And>u n. P (user_offline_event u (utcnow e n))"
  shows "all_sent P w (world_of (disconnect e held w c))"
proof -
  obtain rest where "wire (world_of (disconnect e held w c)) = wire w @ rest"
    "list_all (\<lambda>x. P (fst (snd x))) rest"
    using wire_disconnect_all[of P e, OF off] by blast
  then show ?thesis by (simp add: all_sent_def sent_since_def)
qed

lemma stamped_offline: "stamped_event e (user_offline_event u (utcnow e n))"
  unfolding stamped_event_def clock_field_def str_field_def user_offline_event_def
  by auto

lemma stamped_or_edited_offline:
  "stamped_event e (user_offline_event u (utcnow e n))
     \<or> edited_event e (user_offline_event u (utcnow e n))"
  by (simp add: stamped_offline)

lemma stamped_events:
  "stamped_event e (user_online_event u (now e w))"
  "stamped_event e (new_message_event d (now e w))"
  "stamped_event e (message_deleted_event i (now e w))"
  "stamped_event e (typing_start_event u nm (now e w))"
  "stamped_event e (typing_stop_event u (now e w))"
  "stamped_event e (member_joined_event d (now e w))"
  "stamped_event e (member_left_event u (now e w))"
  "stamped_event e (reaction_update_event i em u a (now e w))"
  "stamped_event e (pin_event i b u (now e w))"
  "stamped_event e (poll_event d a (now e w))"
  "stamped_event e (poll_vote_event i u (now e w))"
  "stamped_event e (message_read_event i u (now e w))"
  "stamped_event e (mention_event i (now e w))"
  unfolding stamped_event_def clock_field_def str_field_def now_def
    user_online_event_def new_message_event_def message_deleted_event_def
    typing_start_event_def typing_stop_event_def member_joined_event_def
    member_left_event_def reaction_update_event_def pin_event_def poll_event_def
    poll_vote_event_def message_read_event_def mention_event_def
  by auto

lemma edited_event_edit: "edited_event e (message_edited_event i c (now e w))"
  unfolding edited_event_def clock_field_def now_def message_edited_event_def by auto

lemma all_sent_connect: "all_sent (stamped_event e) w (world_of (connect e held w c g u))"
proof (cases held)
  case True
  then show ?thesis by (simp add: connect_def all_sent_refl)
next
  case False
  define w' where "w' = w\<lparr>group_connections := (group_connections w)(g \<mapsto> List.insert c
        (case group_connections w g of None \<Rightarrow> [] | Some cs \<Rightarrow> cs)),
      connection_info := (connection_info w)(c \<mapsto> (u, g))\<rparr>"
  have "all_sent (stamped_event e) w' (world_of (broadcast_to_group e False w' g
      (user_online_event u (now e w')) (Some c)))"
    by (rule all_sent_broadcast) (rule stamped_events stamped_offline)+
  moreover have "wire w' = wire w" by (simp add: w'_def)
  ultimately have "all_sent (stamped_event e) w (world_of (broadcast_to_group e False w' g
      (user_online_event u (now e w')) (Some c)))"
    by (simp add: all_sent_def sent_since_def)
  then show ?thesis using False by (simp add: connect_def Let_def w'_def)
qed

lemma all_sent_set_typing:
  "all_sent (stamped_event e) w (world_of (set_typing e held w g u n))"
proof (cases held)
  case True
  then show ?thesis by (simp add: set_typing_def all_sent_refl)
next
  case False
  define w' where "w' = w\<lparr>typing_users := (typing_users w)(g \<mapsto> List.insert u
            (case typing_users w g of None \<Rightarrow> [] | Some us \<Rightarrow> us))\<rparr>"
  have "all_sent (stamped_event e) w' (world_of (broadcast_to_group e False w' g
      (typing_start_event u n (now e w')) None))"
    by (rule all_sent_broadcast) (rule stamped_events stamped_offline)+
  moreover have "wire w' = wire w" by (simp add: w'_def)
  ultimately have "all_sent (stamped_event e) w (world_of (broadcast_to_group e False w' g
      (typing_start_event u n (now e w')) None))"
    by (simp add: all_sent_def sent_since_def)
  then show ?thesis using False by (simp add: set_typing_def Let_def w'_def)
qed

lemma discard_typing_wire: "wire (discard_typing w g u) = wire w"
  by (simp add: discard_typing_def split: option.splits)

lemma all_sent_clear_typing:
  "all_sent (stamped_event e) w (world_of (clear_typing e held w g u))"
proof (cases held)
  case True
  then show ?thesis by (simp add: clear_typing_def all_sent_refl)
next
  case False
  have "all_sent (stamped_event e) (discard_typing w g u)
     (world_of (broadcast_to_group e False (discard_typing w g u) g
      (typing_stop_event u (now e (discard_typing w g u))) None))"
    by (rule all_sent_broadcast) (rule stamped_events stamped_offline)+
  then have "all_sent (stamped_event e) w
     (world_of (broadcast_to_group e False (discard_typing w g u) g
      (typing_stop_event u (now e (discard_typing w g u))) None))"
    by (simp add: all_sent_def sent_since_def discard_typing_wire)
  then show ?thesis using False by (simp add: clear_typing_def Let_def)
qed

lemma send_to_user_loop_wire:
  "\<exists>new. wire (send_to_user_loop e u m cs w) = wire w @ new \<and> (\<forall>x\<in>set new. fst (snd x) = m)"
proof (induction cs arbitrary: w)
  case Nil
  then show ?case by simp
next
  case (Cons c cs)
  let ?w1 = "fst (send_text e w c m)"
  obtain n1 where n1: "wire (send_to_user_loop e u m cs ?w1) = wire ?w1 @ n1"
    "\<forall>x\<in>set n1. fst (snd x) = m" using Cons.IH by blast
  have w1: "wire ?w1 = wire w @ [(c, m, \<not> send_fails e (length (wire w)) c)]"
    by (simp add: send_text_def Let_def)
  have sent: "\<exists>new. wire (send_to_user_loop e u m cs ?w1) = wire w @ new
      \<and> (\<forall>x\<in>set new. fst (snd x) = m)"
  proof -
    have "wire (send_to_user_loop e u m cs ?w1) =
        wire w @ ((c, m, \<not> send_fails e (length (wire w)) c) # n1)"
      using n1(1) w1 by simp
    moreover have "\<forall>x\<in>set ((c, m, \<not> send_fails e (length (wire w)) c) # n1). fst (snd x) = m"
      using n1(2) by simp
    ultimately show ?thesis by blast
  qed
  show ?case
  proof (cases "connection_info w c")
    case None
    then show ?thesis using Cons.IH[of w] by simp
  next
    case (Some info)
    then show ?thesis using Cons.IH[of w] sent by (cases "fst info = u") simp_all
  qed
qed

lemma all_sent_mention:
  "all_sent (stamped_event e) w (broadcast_mention e w g i u)"
proof (cases "group_connections w g")
  case None
  then show ?thesis by (simp add: broadcast_mention_def send_to_user_def all_sent_refl)
next
  case (Some cs)
  obtain new where "wire (send_to_user_loop e u (mention_event i (now e w)) cs w) = wire w @ new"
    "\<forall>x\<in>set new. fst (snd x) = mention_event i (now e w)"
    using send_to_user_loop_wire by blast
  then show ?thesis using Some stamped_events(13)[of e i w]
    by (simp add: broadcast_mention_def send_to_user_def all_sent_def sent_since_def list_all_iff)
qed

lemma isoformat_noon: "isoformat noon = ''2024-05-17T12:00:00''"
  by code_simp

subsection \<open>C9: the shape of outbound events\<close>

text \<open>
  Claim C9 says that every outbound event but \<^verbatim>\<open>pong\<close> carries a \<^verbatim>\<open>timestamp\<close> field in
  milliseconds since the epoch. The \<^verbatim>\<open>message_edited\<close> event has no \<^verbatim>\<open>timestamp\<close> field,
  and where the field exists it is the text of \<^verbatim>\<open>isoformat()\<close>, not a number: in room R1
  with alice connected, \<^verbatim>\<open>broadcast_message_edit\<close> and \<^verbatim>\<open>broadcast_message\<close> send her these.
\<close>

theorem timestamp_not_milliseconds:
  "sent_since room1 (world_of (broadcast_message_edit (env_with []) False room1 ''R1'' ''m1'' ''hi''))
     = [(1, message_edited_event ''m1'' ''hi'' noon, True)]
   \<and> map_of (message_edited_event ''m1'' ''hi'' noon) ''timestamp'' = None
   \<and> sent_since room1 (world_of (broadcast_message (env_with []) False room1 ''R1'' stored))
     = [(1, new_message_event stored noon, True)]
   \<and> map_of (new_message_event stored noon) ''timestamp'' = Some (JStr ''2024-05-17T12:00:00'')"
  by (simp add: broadcast_message_edit_def broadcast_message_def broadcast_eq room1_eq
      env_with_def failed_def now_def sent_since_def message_edited_event_def
      new_message_event_def isoformat_noon)


text \<open>
  Claim C9, amended. Every event that the manager's operations put on the wire carries its
  kind as a text in the field \<^verbatim>\<open>type\<close>. Every one of them except \<^verbatim>\<open>message_edited\<close> carries
  a field \<^verbatim>\<open>timestamp\<close> whose value is the \<^verbatim>\<open>isoformat()\<close> text of a reading of the server's
  clock; \<^verbatim>\<open>message_edited\<close> carries that text in the field \<^verbatim>\<open>edited_at\<close> and has no
  \<^verbatim>\<open>timestamp\<close>.
\<close>

theorem outbound_events_tagged_and_stamped:
  "all_sent (stamped_event e) w (world_of (connect e held w c g u))
   \<and> all_sent (stamped_event e) w (world_of (disconnect e held w c))
   \<and> all_sent (stamped_event e) w (world_of (set_typing e held w g u nm))
   \<and> all_sent (stamped_event e) w (world_of (clear_typing e held w g u))
   \<and> all_sent (stamped_event e) w (world_of (broadcast_message e held w g d))
   \<and> all_sent (\<lambda>ev. stamped_event e ev \<or> edited_event e ev) w
        (world_of (broadcast_message_edit e held w g i txt))
   \<and> all_sent (stamped_event e) w (world_of (broadcast_message_delete e held w g i))
   \<and> all_sent (stamped_event e) w (world_of (broadcast_member_joined e held w g d))
   \<and> all_sent (stamped_event e) w (world_of (broadcast_member_left e held w g u))
   \<and> all_sent (stamped_event e) w (world_of (broadcast_reaction e held w g i em u a))
   \<and> all_sent (stamped_event e) w (world_of (broadcast_pin e held w g i b u))
   \<and> all_sent (stamped_event e) w (world_of (broadcast_poll e held w g d a))
   \<and> all_sent (stamped_event e) w (world_of (broadcast_poll_vote e held w g i u))
   \<and> all_sent (stamped_event e) w (world_of (broadcast_read e held w g i u))
   \<and> all_sent (stamped_event e) w (broadcast_mention e w g i u)"
proof -
  have 1: "all_sent (stamped_event e) w (world_of (connect e held w c g u))"
    by (rule all_sent_connect)
  have 2: "all_sent (stamped_event e) w (world_of (disconnect e held w c))"
    by (rule all_sent_disconnect) (rule stamped_offline)
  have 3: "all_sent (stamped_event e) w (world_of (set_typing e held w g u nm))"
    by (rule all_sent_set_typing)
  have 4: "all_sent (stamped_event e) w (world_of (clear_typing e held w g u))"
    by (rule all_sent_clear_typing)
  have 5: "all_sent (stamped_event e) w (world_of (broadcast_message e held w g d))"
    unfolding broadcast_message_def
    by (rule all_sent_broadcast) (rule stamped_events stamped_offline)+
  have 6: "all_sent (\<lambda>ev. stamped_event e ev \<or> edited_event e ev) w
        (world_of (broadcast_message_edit e held w g i txt))"
    unfolding broadcast_message_edit_def
    by (rule all_sent_broadcast) (simp_all add: edited_event_edit stamped_offline)
  have 7: "all_sent (stamped_event e) w (world_of (broadcast_message_delete e held w g i))"
    unfolding broadcast_message_delete_def
    by (rule all_sent_broadcast) (rule stamped_events stamped_offline)+
  have 8: "all_sent (stamped_event e) w (world_of (broadcast_member_joined e held w g d))"
    unfolding broadcast_member_joined_def
    by (rule all_sent_broadcast) (rule stamped_events stamped_offline)+
  have 9: "all_sent (stamped_event e) w (world_of (broadcast_member_left e held w g u))"
    unfolding broadcast_member_left_def
    by (rule all_sent_broadcast) (rule stamped_events stamped_offline)+
  have 10: "all_sent (stamped_event e) w (world_of (broadcast_reaction e held w g i em u a))"
    unfolding broadcast_reaction_def
    by (rule all_sent_broadcast) (rule stamped_events stamped_offline)+
  have 11: "all_sent (stamped_event e) w (world_of (broadcast_pin e held w g i b u))"
    unfolding broadcast_pin_def
    by (rule all_sent_broadcast) (rule stamped_events stamped_offline)+
  have 12: "all_sent (stamped_event e) w (world_of (broadcast_poll e held w g d a))"
    unfolding broadcast_poll_def
    by (rule all_sent_broadcast) (rule stamped_events stamped_offline)+
  have 13: "all_sent (stamped_event e) w (world_of (broadcast_poll_vote e held w g i u))"
    unfolding broadcast_poll_vote_def
    by (rule all_sent_broadcast) (rule stamped_events stamped_offline)+
  have 14: "all_sent (stamped_event e) w (world_of (broadcast_read e held w g i u))"
    unfolding broadcast_read_def
    by (rule all_sent_broadcast) (rule stamped_events stamped_offline)+
  have 15: "all_sent (stamped_event e) w (broadcast_mention e w g i u)"
    by (rule all_sent_mention)
  show ?thesis
    by (intro conjI) (rule 1 2 3 4 5 6 7 8 9 10 11 12 13 14 15)+
qed

subsection \<open>C10: frames of an unknown kind\<close>

text \<open>
  Claim C10. A frame that parses as a JSON object whose \<^verbatim>\<open>type\<close> is none of
  \<^verbatim>\<open>message\<close>, \<^verbatim>\<open>typing\<close>, \<^verbatim>\<open>stop_typing\<close>, \<^verbatim>\<open>read\<close>, \<^verbatim>\<open>ping\<close> changes nothing: the round
  returns with the registry, the typing sets, the wire and the persistence log as they
  were, and the message loop goes on with the next frame.
\<close>

theorem unknown_frame_ignored:
  assumes "py_get message ''type'' \<noteq> JStr ''message''"
    and "py_get message ''type'' \<noteq> JStr ''typing''"
    and "py_get message ''type'' \<noteq> JStr ''stop_typing''"
    and "py_get message ''type'' \<noteq> JStr ''read''"
    and "py_get message ''type'' \<noteq> JStr ''ping''"
  shows "handle_frame e held w s (Some (JObj message)) = Done w
     \<and> message_loop e held w s (Some (JObj message) # frames) = message_loop e held w s frames"
  using assms by (simp add: handle_frame_def Let_def)

theorem unknown_frame_ignored_witness:
  "py_get [(''type'', JStr ''dance''), (''content'', JStr ''hello'')] ''type'' \<noteq> JStr ''message''
   \<and> py_get [(''type'', JStr ''dance''), (''content'', JStr ''hello'')] ''type'' \<noteq> JStr ''typing''
   \<and> py_get [(''type'', JStr ''dance''), (''content'', JStr ''hello'')] ''type'' \<noteq> JStr ''stop_typing''
   \<and> py_get [(''type'', JStr ''dance''), (''content'', JStr ''hello'')] ''type'' \<noteq> JStr ''read''
   \<and> py_get [(''type'', JStr ''dance''), (''content'', JStr ''hello'')] ''type'' \<noteq> JStr ''ping''
   \<and> handle_frame (env_with [2]) False room3 alice_session
        (Some (JObj [(''type'', JStr ''dance''), (''content'', JStr ''hello'')])) = Done room3
   \<and> message_loop (env_with [2]) False room3 alice_session
        [Some (JObj [(''type'', JStr ''dance''), (''content'', JStr ''hello'')])]
       = message_loop (env_with [2]) False room3 alice_session []"
proof -
  have t: "py_get [(''type'', JStr ''dance''), (''content'', JStr ''hello'')] ''type'' = JStr ''dance''"
    by (simp add: py_get_def)
  show ?thesis
    using unknown_frame_ignored[of "[(''type'', JStr ''dance''), (''content'', JStr ''hello'')]"
        "env_with [2]" False room3 alice_session "[]"]
    unfolding t by simp
qed

lemma get_typing_users_wire: "get_typing_users (w\<lparr>wire := x\<rparr>) g = get_typing_users w g"
  by (simp add: get_typing_users_def)

lemma get_typing_users_discard:
  "set (get_typing_users (discard_typing (discard_connection w g c) g u) g')
     \<subseteq> set (get_typing_users w g')"
  by (auto simp: get_typing_users_def discard_typing_users split: option.splits if_splits)

lemma typing_shrinks_broadcast:
  "set (get_typing_users (world_of (broadcast_to_group e held w g m ex)) g')
     \<subseteq> set (get_typing_users w g')"
proof -
  define S where "S = set (get_typing_users w g')"
  have "set (get_typing_users w g') \<subseteq> S \<longrightarrow>
      set (get_typing_users (world_of (broadcast_to_group e held w g m ex)) g') \<subseteq> S"
  proof (rule preserved(2)[where P = "\<lambda>w. set (get_typing_users w g') \<subseteq> S"])
    fix w x assume "set (get_typing_users w g') \<subseteq> S"
    then show "set (get_typing_users (w\<lparr>wire := x\<rparr>) g') \<subseteq> S"
      by (simp add: get_typing_users_wire)
  next
    fix w c u g
    assume a: "set (get_typing_users w g') \<subseteq> S"
    have "get_typing_users (w\<lparr>connection_info := (connection_info w)(c := None)\<rparr>) g'
        = get_typing_users w g'" by (simp add: get_typing_users_def)
    then show "set (get_typing_users (discard_typing (discard_connection
        (w\<lparr>connection_info := (connection_info w)(c := None)\<rparr>) g c) g u) g') \<subseteq> S"
      using a get_typing_users_discard[of
          "w\<lparr>connection_info := (connection_info w)(c := None)\<rparr>" g c u g'] by auto
  qed
  then show ?thesis by (simp add: S_def)
qed

lemma failed_none:
  "(\<forall>n c. \<not> send_fails e n c) \<Longrightarrow> failed (loop_entries e m ex cs k) = []"
  by (induction cs arbitrary: k) (simp_all add: failed_def)

lemma broadcast_no_failure:
  assumes "\<forall>n c. \<not> send_fails e n c"
  shows "\<exists>x. broadcast_to_group e held w g m ex = Done (w\<lparr>wire := x\<rparr>)"
proof (cases "group_connections w g")
  case None
  have "broadcast_to_group e held w g m ex = Done w" using None by (simp add: broadcast_eq)
  then have "broadcast_to_group e held w g m ex = Done (w\<lparr>wire := wire w\<rparr>)" by simp
  then show ?thesis by (rule exI)
next
  case (Some cs)
  then have "broadcast_to_group e held w g m ex =
      Done (w\<lparr>wire := wire w @ loop_entries e m ex cs (length (wire w))\<rparr>)"
    using failed_none[OF assms] by (simp add: broadcast_eq)
  then show ?thesis by (rule exI)
qed

lemma clear_typing_removes:
  "u \<notin> set (get_typing_users (world_of (clear_typing e False w r u)) r)"
proof -
  have "u \<notin> set (get_typing_users (discard_typing w r u) r)"
    by (simp add: get_typing_users_def discard_typing_def split: option.splits)
  then show ?thesis
    using typing_shrinks_broadcast[of e False "discard_typing w r u" r
        "typing_stop_event u (now e w)" None r]
    by (auto simp: clear_typing_free)
qed







subsection \<open>C8: setting and clearing the typing flag\<close>




lemma strip_hello: "strip ''  hello '' = ''hello''"
  by code_simp

lemma typing_room3_eq:
  "typing_room3 = room3\<lparr>typing_users := [''R1'' \<mapsto> [''alice'']],
     wire := wire room3 @ [(3, typing_start_event ''alice'' ''Alice'' noon, True),
                           (2, typing_start_event ''alice'' ''Alice'' noon, True),
                           (1, typing_start_event ''alice'' ''Alice'' noon, True)]\<rparr>"
  by (simp add: typing_room3_def set_typing_free broadcast_eq room3_eq env_with_def failed_def
      now_def)

lemma blank_message_dropped:
  assumes "py_get message ''type'' = JStr ''message''"
    and "(case map_of message ''data'' of None \<Rightarrow> JObj message | Some d \<Rightarrow> d) = JObj msg_data"
    and "(if truthy (py_get msg_data ''content'') then py_get msg_data ''content'' else JStr [])
           = JStr raw"
    and "strip raw = []"
  shows "handle_frame e held w s (Some (JObj message)) = Done w"
  using assms by (simp add: handle_frame_def handle_message_def)

lemma rejected_message_not_broadcast:
  assumes "py_get message ''type'' = JStr ''message''"
    and "(case map_of message ''data'' of None \<Rightarrow> JObj message | Some d \<Rightarrow> d) = JObj msg_data"
    and "(if truthy (py_get msg_data ''content'') then py_get msg_data ''content'' else JStr [])
           = JStr raw"
    and "strip raw \<noteq> []"
    and "call = SendMessage (group_id s) (user_id s) (strip raw)
           (case map_of msg_data ''message_type'' of None \<Rightarrow> JStr ''text'' | Some t \<Rightarrow> t)
           (py_get msg_data ''reply_to_id'')"
    and "db_exec e (db_calls w) call = None
           \<or> (\<exists>v. db_exec e (db_calls w) call = Some v \<and> \<not> truthy v)"
  shows "handle_frame e held w s (Some (JObj message)) = Done (w\<lparr>db_calls := db_calls w @ [call]\<rparr>)"
  using assms by (auto simp: handle_frame_def handle_message_def Let_def)

lemma accepted_message_sent:
  assumes "py_get message ''type'' = JStr ''message''"
    and "(case map_of message ''data'' of None \<Rightarrow> JObj message | Some d \<Rightarrow> d) = JObj msg_data"
    and "(if truthy (py_get msg_data ''content'') then py_get msg_data ''content'' else JStr [])
           = JStr raw"
    and "strip raw \<noteq> []"
    and "call = SendMessage (group_id s) (user_id s) (strip raw)
           (case map_of msg_data ''message_type'' of None \<Rightarrow> JStr ''text'' | Some t \<Rightarrow> t)
           (py_get msg_data ''reply_to_id'')"
    and "db_exec e (db_calls w) call = Some new_msg" and "truthy new_msg"
  shows "handle_frame e held w s (Some (JObj message)) =
     (case broadcast_message e held (w\<lparr>db_calls := db_calls w @ [call]\<rparr>) (group_id s) new_msg of
        Done w2 \<Rightarrow> clear_typing e held w2 (group_id s) (user_id s)
      | Deadlock w2 \<Rightarrow> Deadlock w2)"
  using assms by (simp add: handle_frame_def handle_message_def Let_def)

lemma accepted_message_returns:
  assumes "py_get message ''type'' = JStr ''message''"
    and "(case map_of message ''data'' of None \<Rightarrow> JObj message | Some d \<Rightarrow> d) = JObj msg_data"
    and "(if truthy (py_get msg_data ''content'') then py_get msg_data ''content'' else JStr [])
           = JStr raw"
    and "strip raw \<noteq> []"
    and "call = SendMessage (group_id s) (user_id s) (strip raw)
           (case map_of msg_data ''message_type'' of None \<Rightarrow> JStr ''text'' | Some t \<Rightarrow> t)
           (py_get msg_data ''reply_to_id'')"
    and "db_exec e (db_calls w) call = Some new_msg" and "truthy new_msg"
    and up: "\<forall>n c. \<not> send_fails e n c"
  shows "\<exists>w'. handle_frame e False w s (Some (JObj message)) = Done w'
           \<and> user_id s \<notin> set (get_typing_users w' (group_id s))"
proof -
  let ?w1 = "w\<lparr>db_calls := db_calls w @ [call]\<rparr>"
  obtain x where b: "broadcast_message e False ?w1 (group_id s) new_msg = Done (?w1\<lparr>wire := x\<rparr>)"
    unfolding broadcast_message_def using broadcast_no_failure[OF up] by blast
  let ?w2 = "?w1\<lparr>wire := x\<rparr>"
  obtain y where c: "broadcast_to_group e False (discard_typing ?w2 (group_id s) (user_id s))
      (group_id s) (typing_stop_event (user_id s) (now e ?w2)) None =
      Done ((discard_typing ?w2 (group_id s) (user_id s))\<lparr>wire := y\<rparr>)"
    using broadcast_no_failure[OF up] by blast
  have "handle_frame e False w s (Some (JObj message)) = clear_typing e False ?w2 (group_id s) (user_id s)"
    using accepted_message_sent[OF assms(1-7)] b by simp
  then have eq: "handle_frame e False w s (Some (JObj message)) =
      Done ((discard_typing ?w2 (group_id s) (user_id s))\<lparr>wire := y\<rparr>)"
    using c by (simp add: clear_typing_free)
  have "user_id s \<notin> set (get_typing_users (world_of (clear_typing e False ?w2 (group_id s) (user_id s))) (group_id s))"
    by (rule clear_typing_removes)
  then have "user_id s \<notin> set (get_typing_users
      ((discard_typing ?w2 (group_id s) (user_id s))\<lparr>wire := y\<rparr>) (group_id s))"
    using c by (simp add: clear_typing_free)
  with eq show ?thesis by blast
qed

subsection \<open>C7: a message frame\<close>

text \<open>
  Claim C7 says that a message with non-empty content that is stored is broadcast as
  \<^verbatim>\<open>new_message\<close> and that the sender's typing flag is then cleared. A blank message is
  dropped and a rejected one is not broadcast, as the claim says; but the flag is not
  always cleared. In room R1 alice (connection 1) is typing and the transports of bob and
  carol (2 and 3) are broken. Alice sends \<^verbatim>\<open>{"type": "message", "content": "  hello "}\<close>.
  The message is stored and \<^verbatim>\<open>new_message\<close> reaches alice; the cleanup of the two failed
  sends blocks on the lock, as in C1, so \<^verbatim>\<open>broadcast_message\<close> never returns,
  \<^verbatim>\<open>clear_typing\<close> is never called and alice stays in the typing set.
\<close>

theorem message_send_blocks:
  "stuck_message = Deadlock (world_of stuck_message)
   \<and> db_calls (world_of stuck_message) = [SendMessage ''R1'' ''alice'' ''hello'' (JStr ''text'') JNull]
   \<and> map (\<lambda>x. (fst x, event_type (fst (snd x)), snd (snd x)))
         (sent_since typing_room3 (world_of stuck_message)) =
       [(3, JStr ''new_message'', False), (2, JStr ''new_message'', False),
        (1, JStr ''new_message'', True),
        (2, JStr ''user_offline'', False), (1, JStr ''user_offline'', True)]
   \<and> get_typing_users typing_room3 ''R1'' = [''alice'']
   \<and> get_typing_users (world_of stuck_message) ''R1'' = [''alice'']"
proof -
  have eq: "stuck_message = Deadlock
     (typing_room3\<lparr>group_connections := [''R1'' \<mapsto> [2, 1]],
        connection_info := [1 \<mapsto> (''alice'', ''R1''), 2 \<mapsto> (''bob'', ''R1'')],
        db_calls := [SendMessage ''R1'' ''alice'' ''hello'' (JStr ''text'') JNull],
        wire := wire typing_room3 @
          [(3, new_message_event stored noon, False), (2, new_message_event stored noon, False),
           (1, new_message_event stored noon, True),
           (2, user_offline_event ''carol'' noon, False),
           (1, user_offline_event ''carol'' noon, True)]\<rparr>)"
    unfolding stuck_message_def hello_frame_def
    by (simp add: handle_frame_def handle_message_def py_get_def strip_hello alice_session_def
        broadcast_message_def stored_def
        broadcast_eq typing_room3_eq room3_eq env_with_def failed_def disconnect_free
        disconnect_held cleanup_held discard_connection_def discard_typing_def now_def
        fun_upd_twist)
  show ?thesis
    unfolding eq
    by (simp add: typing_room3_eq room3_eq event_type_def py_get_def new_message_event_def
        user_offline_event_def get_typing_users_def sent_since_def)
qed

end
